theory Spec2Isabelle
  imports Complex_Main
begin

section \<open>The Streamlit script as a function on an explicit state\<close>

text \<open>
  The source is one script, \<^verbatim>\<open>Rheology_Parameters_Streamlit_app.py\<close>, which Streamlit
  runs from top to bottom on every interaction. One such run is modelled. What the run
  shows is a list of widgets in the order of the \<^verbatim>\<open>st.*\<close> calls; an f-string is kept as
  the values it formats. A Streamlit call appends its widget and does not raise.

  The eight inputs are Python floats. A finite float is modelled as the real number it
  denotes, so the comparisons of the source (\<^verbatim>\<open>!=\<close>, \<^verbatim>\<open><=\<close>) are the comparisons of
  the reals. Float addition rounds, so it is not the addition of the reals: it is a
  parameter of the run (\<open>float_add\<close>), about which nothing is assumed.
\<close>

subsection \<open>Data\<close>

text \<open>An exception that \<^verbatim>\<open>except Exception as e\<close> catches, with what \<^verbatim>\<open>{e}\<close> prints.\<close>

datatype exn = Exception string

text \<open>
  What \<^verbatim>\<open>joblib.load\<close> returns: an object with a truth value (\<^verbatim>\<open>bool(obj)\<close>) and a
  method \<^verbatim>\<open>predict\<close>. The method is opaque code, so it may read and change a state
  \<open>'w\<close> of its own; it either raises or yields the number \<^verbatim>\<open>predict(input_data)[0]\<close>.
\<close>

record 'w model =
  truthy :: bool
  predict :: "real list \<Rightarrow> 'w \<Rightarrow> (exn + real) \<times> 'w"

text \<open>The variables \<^verbatim>\<open>opc, cc, lp, nc, gyp, sb, wb, sp\<close> of the script.\<close>

record mix =
  opc :: real
  cc :: real
  lp :: real
  nc :: real
  gyp :: real
  sb :: real
  wb :: real
  sp :: real

text \<open>An entry of \<^verbatim>\<open>out_of_range\<close>: parameter, value, low, high.\<close>

type_synonym violation = "string \<times> real \<times> real \<times> real"

text \<open>An entry of \<^verbatim>\<open>results\<close>: label, sys\_pred, dys\_pred, pv\_pred.\<close>

type_synonym row = "string \<times> real \<times> real \<times> real"

datatype widget =
    PageConfig
  | Markdown string
  | Write
  | NumberInput string
  | ErrorLoad string exn
  | ErrorBinder real
  | SuccessBinder
  | WarningRanges "violation list"
  | SuccessRanges
  | Button string
  | ErrorPrediction string exn
  | ErrorModels
  | Subheader string
  | TableHtml "row list"
  | Pyplot string "row list"

text \<open>
  The state of a run: the eight variables, the state the models work on, the page so
  far, and a log of the calls of \<^verbatim>\<open>predict\<close> so far (which model, on which feature
  vector).
\<close>

record 'w state =
  vars :: mix
  world :: 'w
  screen :: "widget list"
  invoked :: "(string \<times> real list) list"

text \<open>
  What a run is given: float addition, the outcome of \<^verbatim>\<open>joblib.load\<close> for a path
  (\<open>Inl\<close>: it raises), the eight numbers entered in the form, and whether the button was
  clicked.
\<close>

record 'w run =
  float_add :: "real \<Rightarrow> real \<Rightarrow> real"
  joblib_load :: "string \<Rightarrow> exn + 'w model"
  entered :: mix
  clicked :: bool

text \<open>\<^verbatim>\<open>st.stop()\<close> ends the run; otherwise the script goes on.\<close>

datatype 'a flow = Stop 'a | Continue 'a

subsection \<open>Loading the models (lines 10 to 19)\<close>

definition load_model :: "'w run \<Rightarrow> string \<Rightarrow> 'w model option \<times> widget list" where
  "load_model r path =
     (case joblib_load r path of
        Inr obj \<Rightarrow> (Some obj, [])
      | Inl e \<Rightarrow> (None, [ErrorLoad path e]))"

record 'w models =
  model_SYS :: "'w model option"
  model_DYS :: "'w model option"
  model_PV :: "'w model option"

definition load_models :: "'w run \<Rightarrow> 'w models \<times> widget list" where
  "load_models r =
     (let (m_sys, page1) = load_model r ''GUI_SYS.joblib'';
          (m_dys, page2) = load_model r ''GUI_DYS.joblib'';
          (m_pv, page3) = load_model r ''GUI_PV.joblib''
      in (\<lparr>model_SYS = m_sys, model_DYS = m_dys, model_PV = m_pv\<rparr>,
          page1 @ page2 @ page3))"

subsection \<open>Page set-up and step 1 (lines 24 to 133)\<close>

text \<open>
  The static part of the page, in the order of the calls. A markdown block is named by its
  class or its heading; in the labels of the inputs the dash of the source is written
  \<^verbatim>\<open>-\<close>.
\<close>

definition st :: "widget \<Rightarrow> 'w state \<Rightarrow> 'w state" where
  "st x s = s\<lparr>screen := screen s @ [x]\<rparr>"

definition header :: "widget list" where
  "header =
     [PageConfig, Markdown ''style'', Markdown ''title-box'', Write,
      Markdown ''Step 1: Enter Mix Parameters'',
      NumberInput ''OPC (%) [40-100]'', NumberInput ''CC (%) [0-43]'',
      NumberInput ''LP (%) [0-23]'', NumberInput ''NC (%) [0-5]'',
      NumberInput ''GYP (%) [0-3]'', NumberInput ''S/B [0.5-2.5]'',
      NumberInput ''W/B [0.4-0.55]'', NumberInput ''SP (%) [0.5-2.5]'']"

subsection \<open>Step 2: validation (lines 138 to 165)\<close>

definition binder_sum :: "'w run \<Rightarrow> mix \<Rightarrow> real" where
  "binder_sum r m = float_add r (float_add r (float_add r (opc m) (cc m)) (lp m)) (gyp m)"

definition check_binder :: "'w run \<Rightarrow> 'w state \<Rightarrow> 'w state flow" where
  "check_binder r s =
     (if binder_sum r (vars s) \<noteq> 100
      then Stop (st (ErrorBinder (binder_sum r (vars s))) s)
      else Continue (st SuccessBinder s))"

text \<open>
  The dictionary \<^verbatim>\<open>ranges\<close> in insertion order, \<open>(param, low, high, val)\<close>. The
  literals \<^verbatim>\<open>0.4\<close> and \<^verbatim>\<open>0.55\<close> are the floats nearest to them.
\<close>

definition ranges :: "mix \<Rightarrow> (string \<times> real \<times> real \<times> real) list" where
  "ranges m =
     [(''OPC (%)'', 40, 100, opc m),
      (''CC (%)'', 0, 43, cc m),
      (''LP (%)'', 0, 23, lp m),
      (''NC (%)'', 0, 5, nc m),
      (''GYP (%)'', 0, 3, gyp m),
      (''S/B'', 1 / 2, 5 / 2, sb m),
      (''W/B'', 3602879701896397 / 9007199254740992,
                2476979795053773 / 4503599627370496, wb m),
      (''SP (%)'', 1 / 2, 5 / 2, sp m)]"

fun range_loop :: "(string \<times> real \<times> real \<times> real) list \<Rightarrow> violation list \<Rightarrow> violation list"
  where
  "range_loop [] out_of_range = out_of_range"
| "range_loop ((param, low, high, val) # rest) out_of_range =
     range_loop rest
       (if \<not> (low \<le> val \<and> val \<le> high)
        then out_of_range @ [(param, val, low, high)]
        else out_of_range)"

definition out_of_range :: "mix \<Rightarrow> violation list" where
  "out_of_range m = range_loop (ranges m) []"

definition check_ranges :: "'w state \<Rightarrow> 'w state" where
  "check_ranges s =
     (if out_of_range (vars s) \<noteq> []
      then st (WarningRanges (out_of_range (vars s))) s
      else st SuccessRanges s)"

subsection \<open>Step 3: predictions (lines 170 to 265)\<close>

text \<open>The truth value of a variable that holds \<^verbatim>\<open>None\<close> or a loaded object.\<close>

fun is_true :: "'w model option \<Rightarrow> bool" where
  "is_true None = False"
| "is_true (Some obj) = truthy obj"

definition feature_vector :: "mix \<Rightarrow> real \<Rightarrow> real list" where
  "feature_vector m time_val =
     [opc m, cc m, lp m, nc m, gyp m, sb m, wb m, sp m, time_val]"

text \<open>
  \<^verbatim>\<open>model.predict(input_data)[0]\<close>. On \<^verbatim>\<open>None\<close> the attribute lookup raises
  AttributeError, which is an Exception.
\<close>

fun call_predict :: "string \<Rightarrow> 'w model option \<Rightarrow> real list \<Rightarrow> 'w state \<Rightarrow> (exn + real) \<times> 'w state"
  where
  "call_predict name None x s =
     (Inl (Exception ''AttributeError''), s)"
| "call_predict name (Some obj) x s =
     (case predict obj x (world s) of
        (res, w') \<Rightarrow> (res, s\<lparr>world := w', invoked := invoked s @ [(name, x)]\<rparr>))"

text \<open>The body of the \<^verbatim>\<open>try\<close>: the first call that raises ends it.\<close>

definition try_predict :: "'w models \<Rightarrow> real list \<Rightarrow> 'w state \<Rightarrow> (exn + real \<times> real \<times> real) \<times> 'w state"
  where
  "try_predict ms x s =
     (case call_predict ''SYS'' (model_SYS ms) x s of
        (Inl e, s1) \<Rightarrow> (Inl e, s1)
      | (Inr sys_pred, s1) \<Rightarrow>
          (case call_predict ''DYS'' (model_DYS ms) x s1 of
             (Inl e, s2) \<Rightarrow> (Inl e, s2)
           | (Inr dys_pred, s2) \<Rightarrow>
               (case call_predict ''PV'' (model_PV ms) x s2 of
                  (Inl e, s3) \<Rightarrow> (Inl e, s3)
                | (Inr pv_pred, s3) \<Rightarrow> (Inr (sys_pred, dys_pred, pv_pred), s3))))"

fun time_loop :: "'w models \<Rightarrow> (real \<times> string) list \<Rightarrow> row list \<Rightarrow> 'w state \<Rightarrow> row list \<times> 'w state"
  where
  "time_loop ms [] results s = (results, s)"
| "time_loop ms ((time_val, label) # rest) results s =
     (case try_predict ms (feature_vector (vars s) time_val) s of
        (Inr (sys_pred, dys_pred, pv_pred), s') \<Rightarrow>
          time_loop ms rest (results @ [(label, sys_pred, dys_pred, pv_pred)]) s'
      | (Inl e, s') \<Rightarrow>
          time_loop ms rest results (st (ErrorPrediction label e) s'))"

definition predict_rows :: "'w models \<Rightarrow> 'w state \<Rightarrow> row list \<times> 'w state" where
  "predict_rows ms s = time_loop ms (zip [0, 1] [''10 min'', ''30 min'']) [] s"

definition present :: "row list \<Rightarrow> widget list" where
  "present results =
     [Subheader ''Prediction Results'', TableHtml results,
      Subheader ''Yield Stress vs Time'', Pyplot ''Yield Stress (Pa)'' results,
      Subheader ''Plastic Viscosity vs Time'', Pyplot ''Plastic Viscosity (Pa.s)'' results]"

definition on_click :: "'w models \<Rightarrow> 'w state \<Rightarrow> 'w state" where
  "on_click ms s =
     (case predict_rows ms s of
        (results, s') \<Rightarrow>
          (if results \<noteq> [] then s'\<lparr>screen := screen s' @ present results\<rparr> else s'))"

definition step3 :: "'w models \<Rightarrow> bool \<Rightarrow> 'w state \<Rightarrow> 'w state" where
  "step3 ms click s =
     (let s1 = st (Markdown ''Step 3: Predictions'') s in
      if is_true (model_SYS ms) \<and> is_true (model_DYS ms) \<and> is_true (model_PV ms)
      then (let s2 = st (Button ''Predict rheological parameters'') s1 in
            if click then on_click ms s2 else s2)
      else st ErrorModels s1)"

subsection \<open>The whole script\<close>

definition script :: "'w run \<Rightarrow> 'w \<Rightarrow> 'w state flow" where
  "script r w =
     (case load_models r of
        (ms, page) \<Rightarrow>
          (let s0 = \<lparr>vars = entered r, world = w,
                     screen = page @ header @ [Markdown ''Step 2: Validate Inputs''],
                     invoked = []\<rparr>
           in case check_binder r s0 of
                Stop s \<Rightarrow> Stop s
              | Continue s1 \<Rightarrow>
                  Continue (st (Markdown ''footer'') (step3 ms (clicked r) (check_ranges s1)))))"

text \<open>The state a run ends in, stopped or not.\<close>

fun final :: "'a flow \<Rightarrow> 'a" where
  "final (Stop s) = s"
| "final (Continue s) = s"

fun stopped :: "'a flow \<Rightarrow> bool" where
  "stopped (Stop s) = True"
| "stopped (Continue s) = False"

subsection \<open>Classes of widgets\<close>

fun is_range_output :: "widget \<Rightarrow> bool" where
  "is_range_output (WarningRanges vs) = True"
| "is_range_output SuccessRanges = True"
| "is_range_output x = False"

text \<open>What the page shows only where the prediction is offered or made.\<close>

fun is_prediction_output :: "widget \<Rightarrow> bool" where
  "is_prediction_output (Button l) = True"
| "is_prediction_output (ErrorPrediction l e) = True"
| "is_prediction_output (Subheader l) = True"
| "is_prediction_output (TableHtml rs) = True"
| "is_prediction_output (Pyplot l rs) = True"
| "is_prediction_output x = False"

fun is_load_error :: "widget \<Rightarrow> bool" where
  "is_load_error (ErrorLoad p e) = True"
| "is_load_error x = False"

fun is_prediction_error :: "widget \<Rightarrow> bool" where
  "is_prediction_error (ErrorPrediction l e) = True"
| "is_prediction_error x = False"

subsection \<open>Concrete runs\<close>

text \<open>
  A model that adds up its features and counts its calls in the state; one that raises
  on every call; one that raises at one time indicator only.
\<close>

definition adder :: "nat model" where
  "adder = \<lparr>truthy = True, predict = (\<lambda>x w. (Inr (sum_list x), Suc w))\<rparr>"

definition broken :: "nat model" where
  "broken = \<lparr>truthy = True, predict = (\<lambda>x w. (Inl (Exception ''ValueError''), Suc w))\<rparr>"


definition empty_model :: "nat model" where
  "empty_model = \<lparr>truthy = False, predict = (\<lambda>x w. (Inr 0, w))\<rparr>"

text \<open>
  The mix of the specification's example; W/B is the float written \<^verbatim>\<open>0.45\<close>. All its
  sums are floats, so float addition agrees with the addition of the reals on it. Its GYP,
  12, lies above the recommended range, so the range check warns on it.
\<close>

definition spec_mix :: mix where
  "spec_mix = \<lparr>opc = 50, cc = 28, lp = 10, nc = 2, gyp = 12, sb = 1,
               wb = 8106479329266893 / 18014398509481984, sp = 1\<rparr>"

text \<open>A mix on its bounds, but for NC, which is above its range.\<close>

definition edge_mix :: mix where
  "edge_mix = \<lparr>opc = 40, cc = 43, lp = 14, nc = 7, gyp = 3, sb = 1 / 2,
               wb = 2476979795053773 / 4503599627370496, sp = 5 / 2\<rparr>"

definition good_run :: "nat run" where
  "good_run = \<lparr>float_add = (+), joblib_load = (\<lambda>path. Inr adder),
               entered = spec_mix, clicked = True\<rparr>"

definition edge_run :: "nat run" where
  "edge_run = \<lparr>float_add = (+), joblib_load = (\<lambda>path. Inr adder),
               entered = edge_mix, clicked = True\<rparr>"

definition short_run :: "nat run" where
  "short_run = \<lparr>float_add = (+), joblib_load = (\<lambda>path. Inr adder),
                entered = spec_mix\<lparr>gyp := 23 / 2\<rparr>, clicked = True\<rparr>"

definition missing_run :: "nat run" where
  "missing_run =
     \<lparr>float_add = (+),
      joblib_load = (\<lambda>path. if path = ''GUI_SYS.joblib''
                            then Inl (Exception ''FileNotFoundError'') else Inr adder),
      entered = spec_mix, clicked = True\<rparr>"

definition falsy_run :: "nat run" where
  "falsy_run =
     \<lparr>float_add = (+),
      joblib_load = (\<lambda>path. if path = ''GUI_DYS.joblib'' then Inr empty_model else Inr adder),
      entered = spec_mix, clicked = True\<rparr>"

definition adder_models :: "nat models" where
  "adder_models = \<lparr>model_SYS = Some adder, model_DYS = Some adder, model_PV = Some adder\<rparr>"

text \<open>A state at the click, and models of which one raises.\<close>

definition click_state :: "nat state" where
  "click_state = \<lparr>vars = spec_mix, world = 0, screen = [], invoked = []\<rparr>"

definition broken_models :: "nat models" where
  "broken_models = \<lparr>model_SYS = Some broken, model_DYS = Some adder, model_PV = Some adder\<rparr>"


subsection \<open>What one pass of the time loop adds\<close>

text \<open>The row appended to \<^verbatim>\<open>results\<close>, and the error shown, for the outcome of one \<^verbatim>\<open>try\<close>.\<close>

fun rows_of :: "string \<Rightarrow> exn + real \<times> real \<times> real \<Rightarrow> row list" where
  "rows_of label (Inl e) = []"
| "rows_of label (Inr (sys_pred, dys_pred, pv_pred)) = [(label, sys_pred, dys_pred, pv_pred)]"

fun errors_of :: "string \<Rightarrow> exn + real \<times> real \<times> real \<Rightarrow> widget list" where
  "errors_of label (Inl e) = [ErrorPrediction label e]"
| "errors_of label (Inr p) = []"

text \<open>A model whose result does not depend on the state it is called in.\<close>

definition deterministic :: "'w model option \<Rightarrow> bool" where
  "deterministic mo =
     (case mo of None \<Rightarrow> True
      | Some obj \<Rightarrow> \<forall>x w w'. fst (predict obj x w) = fst (predict obj x w'))"

section \<open>Properties\<close>

subsection \<open>Auxiliary facts\<close>


lemma load_model_cases:
  "load_model r path =
     (case joblib_load r path of Inl e \<Rightarrow> (None, [ErrorLoad path e]) | Inr obj \<Rightarrow> (Some obj, []))"
  by (simp add: load_model_def split: sum.splits)

lemma fst_load_model:
  "fst (load_model r path) = (case joblib_load r path of Inl e \<Rightarrow> None | Inr obj \<Rightarrow> Some obj)"
  by (simp add: load_model_def split: sum.splits)

lemma snd_load_model:
  "snd (load_model r path) = (case joblib_load r path of Inl e \<Rightarrow> [ErrorLoad path e] | Inr obj \<Rightarrow> [])"
  by (simp add: load_model_def split: sum.splits)

lemma load_models_eq:
  "load_models r =
     (\<lparr>model_SYS = fst (load_model r ''GUI_SYS.joblib''),
       model_DYS = fst (load_model r ''GUI_DYS.joblib''),
       model_PV = fst (load_model r ''GUI_PV.joblib'')\<rparr>,
      snd (load_model r ''GUI_SYS.joblib'') @ snd (load_model r ''GUI_DYS.joblib'')
        @ snd (load_model r ''GUI_PV.joblib''))"
  by (simp add: load_models_def split: prod.splits)


lemma load_page_errors: "list_all is_load_error (snd (load_models r))"
  by (simp add: load_models_eq snd_load_model split: sum.splits)

lemma script_eq:
  "script r w =
     (if binder_sum r (entered r) \<noteq> 100
      then Stop \<lparr>vars = entered r, world = w,
                 screen = snd (load_models r) @ header
                   @ [Markdown ''Step 2: Validate Inputs'', ErrorBinder (binder_sum r (entered r))],
                 invoked = []\<rparr>
      else Continue (st (Markdown ''footer'')
             (step3 (fst (load_models r)) (clicked r)
                (check_ranges \<lparr>vars = entered r, world = w,
                   screen = snd (load_models r) @ header
                     @ [Markdown ''Step 2: Validate Inputs'', SuccessBinder],
                   invoked = []\<rparr>))))"
  by (simp add: script_def check_binder_def st_def split: prod.splits)


lemma st_simps [simp]:
  "vars (st x s) = vars s" "world (st x s) = world s"
  "screen (st x s) = screen s @ [x]" "invoked (st x s) = invoked s"
  by (simp_all add: st_def)

lemma call_predict_frame:
  "call_predict name mo x s = (res, s') \<Longrightarrow> vars s' = vars s \<and> screen s' = screen s"
  by (cases mo) (auto split: prod.splits)

lemma try_predict_frame:
  "try_predict ms x s = (res, s') \<Longrightarrow> vars s' = vars s \<and> screen s' = screen s"
  unfolding try_predict_def
  by (auto split: prod.splits sum.splits dest!: call_predict_frame)

lemma time_loop_vars:
  "time_loop ms ts results s = (results', s') \<Longrightarrow> vars s' = vars s"
proof (induction ts arbitrary: results s)
  case Nil
  then show ?case by simp
next
  case (Cons a ts)
  obtain time_val label where a: "a = (time_val, label)" by (cases a)
  obtain res s1 where t: "try_predict ms (feature_vector (vars s) time_val) s = (res, s1)"
    by (cases "try_predict ms (feature_vector (vars s) time_val) s")
  from try_predict_frame [OF t] have v: "vars s1 = vars s" by simp
  show ?case
  proof (cases res)
    case (Inl e)
    with Cons.prems a t have "time_loop ms ts results (st (ErrorPrediction label e) s1) = (results', s')"
      by simp
    from Cons.IH [OF this] v show ?thesis by simp
  next
    case (Inr p)
    obtain a1 b1 c1 where p: "p = (a1, b1, c1)" by (cases p)
    with Inr Cons.prems a t have "time_loop ms ts (results @ [(label, a1, b1, c1)]) s1 = (results', s')"
      by simp
    from Cons.IH [OF this] v show ?thesis by simp
  qed
qed

lemma time_loop_screen:
  "time_loop ms ts results s = (results', s') \<Longrightarrow>
     \<exists>ws. screen s' = screen s @ ws \<and> list_all is_prediction_error ws"
proof (induction ts arbitrary: results s)
  case Nil
  then show ?case by simp
next
  case (Cons a ts)
  obtain time_val label where a: "a = (time_val, label)" by (cases a)
  obtain res s1 where t: "try_predict ms (feature_vector (vars s) time_val) s = (res, s1)"
    by (cases "try_predict ms (feature_vector (vars s) time_val) s")
  from try_predict_frame [OF t] have v: "screen s1 = screen s" by simp
  show ?case
  proof (cases res)
    case (Inl e)
    with Cons.prems a t have "time_loop ms ts results (st (ErrorPrediction label e) s1) = (results', s')"
      by simp
    from Cons.IH [OF this] v show ?thesis by auto
  next
    case (Inr p)
    obtain a1 b1 c1 where p: "p = (a1, b1, c1)" by (cases p)
    with Inr Cons.prems a t have "time_loop ms ts (results @ [(label, a1, b1, c1)]) s1 = (results', s')"
      by simp
    from Cons.IH [OF this] v show ?thesis by simp
  qed
qed

lemma predict_rows_vars: "predict_rows ms s = (results, s') \<Longrightarrow> vars s' = vars s"
  unfolding predict_rows_def by (rule time_loop_vars)

lemma predict_rows_screen:
  "predict_rows ms s = (results, s') \<Longrightarrow>
     \<exists>ws. screen s' = screen s @ ws \<and> list_all is_prediction_error ws"
  unfolding predict_rows_def by (rule time_loop_screen)

lemma on_click_vars: "vars (on_click ms s) = vars s"
proof -
  obtain results s' where p: "predict_rows ms s = (results, s')"
    by (cases "predict_rows ms s")
  from predict_rows_vars [OF p] show ?thesis
    by (simp add: on_click_def p)
qed

lemma on_click_screen: "\<exists>ws. screen (on_click ms s) = screen s @ ws"
proof -
  obtain results s' where p: "predict_rows ms s = (results, s')"
    by (cases "predict_rows ms s")
  from predict_rows_screen [OF p] obtain ws where "screen s' = screen s @ ws"
    by blast
  then show ?thesis
    by (simp add: on_click_def p)
qed

lemma step3_vars: "vars (step3 ms click s) = vars s"
  by (simp add: step3_def Let_def on_click_vars)

lemma step3_screen:
  "\<exists>ws. screen (step3 ms click s) = screen s @ Markdown ''Step 3: Predictions'' # ws"
proof -
  obtain ws where "screen (on_click ms (st (Button ''Predict rheological parameters'') (st (Markdown ''Step 3: Predictions'') s)))
     = screen (st (Button ''Predict rheological parameters'') (st (Markdown ''Step 3: Predictions'') s)) @ ws"
    using on_click_screen [of ms "st (Button ''Predict rheological parameters'') (st (Markdown ''Step 3: Predictions'') s)"] by (elim exE)
  then show ?thesis by (simp add: step3_def Let_def)
qed

lemma check_ranges_simps [simp]:
  "vars (check_ranges s) = vars s" "world (check_ranges s) = world s"
  "invoked (check_ranges s) = invoked s"
  "screen (check_ranges s) = screen s @
     [if out_of_range (vars s) \<noteq> [] then WarningRanges (out_of_range (vars s)) else SuccessRanges]"
  by (simp_all add: check_ranges_def)

lemma script_screen_prefix:
  "\<exists>ws. screen (final (script r w)) =
          snd (load_models r) @ header @ Markdown ''Step 2: Validate Inputs'' # ws"
proof (cases "binder_sum r (entered r) = 100")
  case True
  let ?s = "check_ranges \<lparr>vars = entered r, world = w,
      screen = snd (load_models r) @ header @ [Markdown ''Step 2: Validate Inputs'', SuccessBinder],
      invoked = []\<rparr>"
  obtain ws where "screen (step3 (fst (load_models r)) (clicked r) ?s)
      = screen ?s @ Markdown ''Step 3: Predictions'' # ws"
    using step3_screen [of "fst (load_models r)" "clicked r" ?s] by (elim exE)
  with True show ?thesis by (simp add: script_eq)
next
  case False
  then show ?thesis by (simp add: script_eq)
qed

subsection \<open>The gate of step 3 and the log of calls\<close>

lemma step3_closed:
  assumes "\<not> (is_true (model_SYS ms) \<and> is_true (model_DYS ms) \<and> is_true (model_PV ms))"
  shows "step3 ms click s = st ErrorModels (st (Markdown ''Step 3: Predictions'') s)"
  unfolding step3_def Let_def using assms by (rule if_not_P)

lemma step3_open:
  assumes "is_true (model_SYS ms) \<and> is_true (model_DYS ms) \<and> is_true (model_PV ms)"
  shows "step3 ms click s =
       (if click
        then on_click ms (st (Button ''Predict rheological parameters'')
               (st (Markdown ''Step 3: Predictions'') s))
        else st (Button ''Predict rheological parameters'')
               (st (Markdown ''Step 3: Predictions'') s))"
  unfolding step3_def Let_def using assms by (rule if_P)

lemma step3_open_screen:
  assumes "is_true (model_SYS ms) \<and> is_true (model_DYS ms) \<and> is_true (model_PV ms)"
  shows "\<exists>ws. screen (step3 ms click s) =
           screen s @ Markdown ''Step 3: Predictions''
             # Button ''Predict rheological parameters'' # ws"
proof -
  let ?s = "st (Button ''Predict rheological parameters'') (st (Markdown ''Step 3: Predictions'') s)"
  obtain ws where "screen (on_click ms ?s) = screen ?s @ ws"
    using on_click_screen [of ms ?s] by (elim exE)
  then show ?thesis
    by (simp add: step3_open [OF assms])
qed

lemma call_predict_grows:
  "call_predict name mo x s = (res, s') \<Longrightarrow> \<exists>cs. invoked s' = invoked s @ cs"
  by (cases mo) (auto split: prod.splits)

lemma call_predict_loaded:
  "is_true mo \<Longrightarrow> call_predict name mo x s = (res, s') \<Longrightarrow>
     invoked s' = invoked s @ [(name, x)]"
  by (cases mo) (auto split: prod.splits)

lemma try_predict_first:
  assumes "is_true (model_SYS ms)" and "try_predict ms x s = (res, s')"
  shows "\<exists>cs. invoked s' = invoked s @ (''SYS'', x) # cs"
proof -
  obtain r1 s1 where c1: "call_predict ''SYS'' (model_SYS ms) x s = (r1, s1)"
    by (cases "call_predict ''SYS'' (model_SYS ms) x s")
  from call_predict_loaded [OF assms(1) c1]
  have i1: "invoked s1 = invoked s @ [(''SYS'', x)]" .
  show ?thesis
  proof (cases r1)
    case (Inl e)
    with assms(2) c1 have "s' = s1" by (simp add: try_predict_def)
    with i1 show ?thesis by simp
  next
    case (Inr a)
    obtain r2 s2 where c2: "call_predict ''DYS'' (model_DYS ms) x s1 = (r2, s2)"
      by (cases "call_predict ''DYS'' (model_DYS ms) x s1")
    from call_predict_grows [OF c2] obtain cs2 where i2: "invoked s2 = invoked s1 @ cs2"
      by (elim exE)
    show ?thesis
    proof (cases r2)
      case (Inl e)
      with assms(2) c1 c2 \<open>r1 = Inr a\<close> have "s' = s2" by (simp add: try_predict_def)
      with i1 i2 show ?thesis by simp
    next
      case (Inr b)
      obtain r3 s3 where c3: "call_predict ''PV'' (model_PV ms) x s2 = (r3, s3)"
        by (cases "call_predict ''PV'' (model_PV ms) x s2")
      from call_predict_grows [OF c3] obtain cs3 where i3: "invoked s3 = invoked s2 @ cs3"
        by (elim exE)
      from assms(2) c1 c2 c3 \<open>r1 = Inr a\<close> \<open>r2 = Inr b\<close> have "s' = s3"
        by (simp add: try_predict_def split: sum.splits)
      with i1 i2 i3 show ?thesis by simp
    qed
  qed
qed

lemma try_predict_grows:
  assumes "try_predict ms x s = (res, s')"
  shows "\<exists>cs. invoked s' = invoked s @ cs"
proof -
  obtain r1 s1 where c1: "call_predict ''SYS'' (model_SYS ms) x s = (r1, s1)"
    by (cases "call_predict ''SYS'' (model_SYS ms) x s")
  from call_predict_grows [OF c1] obtain cs1 where i1: "invoked s1 = invoked s @ cs1"
    by (elim exE)
  show ?thesis
  proof (cases r1)
    case (Inl e)
    with assms c1 have "s' = s1" by (simp add: try_predict_def)
    with i1 show ?thesis by simp
  next
    case (Inr a)
    obtain r2 s2 where c2: "call_predict ''DYS'' (model_DYS ms) x s1 = (r2, s2)"
      by (cases "call_predict ''DYS'' (model_DYS ms) x s1")
    from call_predict_grows [OF c2] obtain cs2 where i2: "invoked s2 = invoked s1 @ cs2"
      by (elim exE)
    show ?thesis
    proof (cases r2)
      case (Inl e)
      with assms c1 c2 \<open>r1 = Inr a\<close> have "s' = s2" by (simp add: try_predict_def)
      with i1 i2 show ?thesis by simp
    next
      case (Inr b)
      obtain r3 s3 where c3: "call_predict ''PV'' (model_PV ms) x s2 = (r3, s3)"
        by (cases "call_predict ''PV'' (model_PV ms) x s2")
      from call_predict_grows [OF c3] obtain cs3 where i3: "invoked s3 = invoked s2 @ cs3"
        by (elim exE)
      from assms c1 c2 c3 \<open>r1 = Inr a\<close> \<open>r2 = Inr b\<close> have "s' = s3"
        by (simp add: try_predict_def split: sum.splits)
      with i1 i2 i3 show ?thesis by simp
    qed
  qed
qed

lemma time_loop_grows:
  "time_loop ms ts results s = (results', s') \<Longrightarrow> \<exists>cs. invoked s' = invoked s @ cs"
proof (induction ts arbitrary: results s)
  case Nil
  then show ?case by simp
next
  case (Cons a ts)
  obtain time_val label where a: "a = (time_val, label)" by (cases a)
  obtain res s1 where t: "try_predict ms (feature_vector (vars s) time_val) s = (res, s1)"
    by (cases "try_predict ms (feature_vector (vars s) time_val) s")
  from try_predict_grows [OF t] obtain cs1 where i1: "invoked s1 = invoked s @ cs1"
    by (elim exE)
  show ?case
  proof (cases res)
    case (Inl e)
    with Cons.prems a t have "time_loop ms ts results (st (ErrorPrediction label e) s1) = (results', s')"
      by simp
    from Cons.IH [OF this] obtain cs where "invoked s' = invoked (st (ErrorPrediction label e) s1) @ cs"
      by (elim exE)
    with i1 show ?thesis by simp
  next
    case (Inr p)
    obtain a1 b1 c1 where p: "p = (a1, b1, c1)" by (cases p)
    with Inr Cons.prems a t have "time_loop ms ts (results @ [(label, a1, b1, c1)]) s1 = (results', s')"
      by simp
    from Cons.IH [OF this] obtain cs where "invoked s' = invoked s1 @ cs"
      by (elim exE)
    with i1 show ?thesis by simp
  qed
qed

lemma predict_rows_first:
  assumes "is_true (model_SYS ms)" and "predict_rows ms s = (rows, s')"
  shows "\<exists>cs. invoked s' = invoked s @ (''SYS'', feature_vector (vars s) 0) # cs"
proof -
  obtain res s1 where t: "try_predict ms (feature_vector (vars s) 0) s = (res, s1)"
    by (cases "try_predict ms (feature_vector (vars s) 0) s")
  from try_predict_first [OF assms(1) t] obtain cs1
    where i1: "invoked s1 = invoked s @ (''SYS'', feature_vector (vars s) 0) # cs1"
    by (elim exE)
  show ?thesis
  proof (cases res)
    case (Inl e)
    with assms(2) t
    have "time_loop ms [(1, ''30 min'')] [] (st (ErrorPrediction ''10 min'' e) s1) = (rows, s')"
      by (simp add: predict_rows_def)
    from time_loop_grows [OF this] obtain cs
      where "invoked s' = invoked (st (ErrorPrediction ''10 min'' e) s1) @ cs"
      by (elim exE)
    with i1 show ?thesis by simp
  next
    case (Inr p)
    obtain a1 b1 c1 where p: "p = (a1, b1, c1)" by (cases p)
    with Inr assms(2) t
    have "time_loop ms [(1, ''30 min'')] [(''10 min'', a1, b1, c1)] s1 = (rows, s')"
      by (simp add: predict_rows_def)
    from time_loop_grows [OF this] obtain cs where "invoked s' = invoked s1 @ cs"
      by (elim exE)
    with i1 show ?thesis by simp
  qed
qed

lemma on_click_first:
  assumes "is_true (model_SYS ms)"
  shows "\<exists>cs. invoked (on_click ms s) = invoked s @ (''SYS'', feature_vector (vars s) 0) # cs"
proof -
  obtain rows s' where p: "predict_rows ms s = (rows, s')"
    by (cases "predict_rows ms s")
  from predict_rows_first [OF assms p] obtain cs
    where "invoked s' = invoked s @ (''SYS'', feature_vector (vars s) 0) # cs"
    by (elim exE)
  then show ?thesis
    by (simp add: on_click_def p)
qed

subsection \<open>Loading\<close>

text \<open>
  C6. Each of the three artifacts is loaded on its own: the variable of a model is
  \<open>None\<close> exactly when its own load raises and holds the loaded object otherwise,
  whatever happens to the other two; each failed load shows one error naming its path,
  in the order SYS, DYS, PV; and no failure is raised further, since the script goes on
  to set up the page after the errors.
\<close>

theorem load_models_independent:
  "fst (load_models r) =
     \<lparr>model_SYS = (case joblib_load r ''GUI_SYS.joblib'' of Inl e \<Rightarrow> None | Inr obj \<Rightarrow> Some obj),
      model_DYS = (case joblib_load r ''GUI_DYS.joblib'' of Inl e \<Rightarrow> None | Inr obj \<Rightarrow> Some obj),
      model_PV = (case joblib_load r ''GUI_PV.joblib'' of Inl e \<Rightarrow> None | Inr obj \<Rightarrow> Some obj)\<rparr>
   \<and> snd (load_models r) =
       (case joblib_load r ''GUI_SYS.joblib'' of
          Inl e \<Rightarrow> [ErrorLoad ''GUI_SYS.joblib'' e] | Inr obj \<Rightarrow> [])
       @ (case joblib_load r ''GUI_DYS.joblib'' of
          Inl e \<Rightarrow> [ErrorLoad ''GUI_DYS.joblib'' e] | Inr obj \<Rightarrow> [])
       @ (case joblib_load r ''GUI_PV.joblib'' of
          Inl e \<Rightarrow> [ErrorLoad ''GUI_PV.joblib'' e] | Inr obj \<Rightarrow> [])
   \<and> take (length (snd (load_models r)) + 1) (screen (final (script r w)))
       = snd (load_models r) @ [PageConfig]"
proof -
  obtain ws where "screen (final (script r w)) =
      snd (load_models r) @ header @ Markdown ''Step 2: Validate Inputs'' # ws"
    using script_screen_prefix [of r w] by (elim exE)
  then have "take (length (snd (load_models r)) + 1) (screen (final (script r w)))
       = snd (load_models r) @ [PageConfig]"
    by (simp add: header_def)
  then show ?thesis
    by (simp add: load_models_eq fst_load_model snd_load_model)
qed

theorem load_models_independent_witness:
  "fst (load_models missing_run) =
     \<lparr>model_SYS = None, model_DYS = Some adder, model_PV = Some adder\<rparr>
   \<and> snd (load_models missing_run) = [ErrorLoad ''GUI_SYS.joblib'' (Exception ''FileNotFoundError'')]
   \<and> take 2 (screen (final (script missing_run 0))) =
       [ErrorLoad ''GUI_SYS.joblib'' (Exception ''FileNotFoundError''), PageConfig]"
proof -
  have l: "joblib_load missing_run ''GUI_SYS.joblib'' = Inl (Exception ''FileNotFoundError'')"
    "joblib_load missing_run ''GUI_DYS.joblib'' = Inr adder"
    "joblib_load missing_run ''GUI_PV.joblib'' = Inr adder"
    by (simp_all add: missing_run_def)
  note t = load_models_independent [of missing_run 0]
  from t have f: "fst (load_models missing_run) =
      \<lparr>model_SYS = None, model_DYS = Some adder, model_PV = Some adder\<rparr>"
    by (simp add: l)
  from t have s: "snd (load_models missing_run) =
      [ErrorLoad ''GUI_SYS.joblib'' (Exception ''FileNotFoundError'')]"
    by (simp add: l)
  from conjunct2 [OF conjunct2 [OF t]] have "take 2 (screen (final (script missing_run 0))) =
      [ErrorLoad ''GUI_SYS.joblib'' (Exception ''FileNotFoundError''), PageConfig]"
    unfolding s by (simp add: numeral_2_eq_2)
  with f s show ?thesis by simp
qed

subsection \<open>Validation\<close>

lemma load_page_member: "x \<in> set (snd (load_models r)) \<Longrightarrow> is_load_error x"
  using load_page_errors [of r] by (simp add: list_all_iff)

lemma load_page_clean:
  "list_all (\<lambda>x. \<not> is_range_output x \<and> \<not> is_prediction_output x \<and> x \<noteq> SuccessBinder)
     (snd (load_models r))"
  by (simp add: load_models_eq snd_load_model split: sum.splits)

lemma header_clean:
  "list_all (\<lambda>x. \<not> is_range_output x \<and> \<not> is_prediction_output x \<and> x \<noteq> SuccessBinder) header"
  by (simp add: header_def)

text \<open>
  C1. The binder check passes exactly when the float sum ((opc + cc) + lp) + gyp is 100:
  the run is stopped if and only if the sum differs from 100, and the success message is on
  the page if and only if the sum is 100. When the sum differs from 100 the page ends with
  the binder error right after the heading of step 2, it holds no output of the range check
  and nothing of the prediction step, and no model has been called.
\<close>

theorem binder_sum_check:
  "(stopped (script r w) \<longleftrightarrow> binder_sum r (entered r) \<noteq> 100)
   \<and> (SuccessBinder \<in> set (screen (final (script r w))) \<longleftrightarrow> binder_sum r (entered r) = 100)
   \<and> (binder_sum r (entered r) \<noteq> 100 \<longrightarrow>
        screen (final (script r w)) =
          snd (load_models r) @ header
            @ [Markdown ''Step 2: Validate Inputs'', ErrorBinder (binder_sum r (entered r))]
        \<and> list_all (\<lambda>x. \<not> is_range_output x \<and> \<not> is_prediction_output x)
            (screen (final (script r w)))
        \<and> invoked (final (script r w)) = []
        \<and> world (final (script r w)) = w)"
proof (cases "binder_sum r (entered r) = 100")
  case True
  let ?s = "check_ranges \<lparr>vars = entered r, world = w,
      screen = snd (load_models r) @ header @ [Markdown ''Step 2: Validate Inputs'', SuccessBinder],
      invoked = []\<rparr>"
  obtain ws where "screen (step3 (fst (load_models r)) (clicked r) ?s)
      = screen ?s @ Markdown ''Step 3: Predictions'' # ws"
    using step3_screen [of "fst (load_models r)" "clicked r" ?s] by (elim exE)
  with True show ?thesis by (simp add: script_eq)
next
  case False
  have "SuccessBinder \<notin> set (snd (load_models r))"
    using load_page_clean [of r] by (auto simp: list_all_iff)
  moreover have "SuccessBinder \<notin> set header"
    by (simp add: header_def)
  moreover have "list_all (\<lambda>x. \<not> is_range_output x \<and> \<not> is_prediction_output x)
      (snd (load_models r))"
    using load_page_clean [of r] by (simp add: list_all_iff)
  moreover have "list_all (\<lambda>x. \<not> is_range_output x \<and> \<not> is_prediction_output x) header"
    by (simp add: header_def)
  ultimately show ?thesis using False by (simp add: script_eq)
qed

theorem binder_sum_check_witness:
  "binder_sum short_run (entered short_run) = 199 / 2
   \<and> stopped (script short_run 0)
   \<and> screen (final (script short_run 0)) =
       header @ [Markdown ''Step 2: Validate Inputs'', ErrorBinder (199 / 2)]
   \<and> invoked (final (script short_run 0)) = []
   \<and> world (final (script short_run 0)) = 0
   \<and> binder_sum good_run (entered good_run) = 100
   \<and> \<not> stopped (script good_run 0)
   \<and> SuccessBinder \<in> set (screen (final (script good_run 0)))"
proof -
  have b: "binder_sum short_run (entered short_run) = 199 / 2"
    by (simp add: binder_sum_def short_run_def spec_mix_def)
  have g: "binder_sum good_run (entered good_run) = 100"
    by (simp add: binder_sum_def good_run_def spec_mix_def)
  have p: "snd (load_models short_run) = []"
    by (simp add: load_models_eq snd_load_model short_run_def)
  from binder_sum_check [of short_run 0] b p
  have "stopped (script short_run 0)
      \<and> screen (final (script short_run 0)) =
          header @ [Markdown ''Step 2: Validate Inputs'', ErrorBinder (199 / 2)]
      \<and> invoked (final (script short_run 0)) = []
      \<and> world (final (script short_run 0)) = 0"
    by simp
  moreover from binder_sum_check [of good_run 0] g
  have "\<not> stopped (script good_run 0) \<and> SuccessBinder \<in> set (screen (final (script good_run 0)))"
    by simp
  ultimately show ?thesis using b g by simp
qed

lemma range_loop_filter:
  "range_loop rs acc =
     acc @ map (\<lambda>(p, l, h, v). (p, v, l, h)) (filter (\<lambda>(p, l, h, v). \<not> (l \<le> v \<and> v \<le> h)) rs)"
  by (induction rs acc rule: range_loop.induct) simp_all

lemma out_of_range_filter:
  "out_of_range m =
     map (\<lambda>(p, l, h, v). (p, v, l, h)) (filter (\<lambda>(p, l, h, v). \<not> (l \<le> v \<and> v \<le> h)) (ranges m))"
  by (simp add: out_of_range_def range_loop_filter)

lemma filter_absent_field:
  "p \<notin> fst ` set rs \<Longrightarrow>
     filter (\<lambda>x. fst x = p) (map (\<lambda>(p, l, h, v). (p, v, l, h)) (filter P rs)) = []"
  by (induction rs) (auto split: prod.splits)

lemma filter_one_field:
  "distinct (map fst rs) \<Longrightarrow> (p, l, h, v) \<in> set rs \<Longrightarrow>
     filter (\<lambda>x. fst x = p) (map (\<lambda>(p, l, h, v). (p, v, l, h)) (filter P rs))
       = (if P (p, l, h, v) then [(p, v, l, h)] else [])"
proof (induction rs)
  case Nil
  then show ?case by simp
next
  case (Cons a rs)
  show ?case
  proof (cases "a = (p, l, h, v)")
    case True
    with Cons.prems have "p \<notin> fst ` set rs" by simp
    from filter_absent_field [OF this, of P] True show ?thesis by simp
  next
    case False
    with Cons.prems have mem: "(p, l, h, v) \<in> set rs" and d: "distinct (map fst rs)"
      and ne: "fst a \<noteq> p"
      by (auto simp: image_iff)
    from Cons.IH [OF d mem] ne show ?thesis by (auto split: prod.splits)
  qed
qed

lemma distinct_ranges: "distinct (map fst (ranges m))"
  by (simp add: ranges_def)

lemma ranges_ordered: "(p, l, h, v) \<in> set (ranges m) \<Longrightarrow> l \<le> h"
  by (auto simp: ranges_def)

text \<open>
  C5. For each of the eight fields the entries of \<open>out_of_range\<close> with its name are none
  when the value lies within the bounds, both bounds included (so none when the value
  equals the lower or the upper bound), and exactly one, carrying the value and the bounds,
  when it lies strictly outside. The list is empty exactly when every field is in range.
  The check does not block the run, whatever the list is: once the binder check has passed
  the run is not stopped, the heading of step 3 follows the message of the range check,
  the button is offered exactly when the three models are true, a click then starts the
  predictions with the call of the SYS model on the vector of time 0, and without a click
  the page ends with the button and the footer.
\<close>

theorem range_check_inclusive:
  "(\<forall>(param, low, high, val) \<in> set (ranges m).
       filter (\<lambda>x. fst x = param) (out_of_range m) =
         (if low \<le> val \<and> val \<le> high then [] else [(param, val, low, high)])
       \<and> (val = low \<or> val = high \<longrightarrow> filter (\<lambda>x. fst x = param) (out_of_range m) = []))
   \<and> (out_of_range m = [] \<longleftrightarrow>
        (\<forall>(param, low, high, val) \<in> set (ranges m). low \<le> val \<and> val \<le> high))
   \<and> (binder_sum r (entered r) = 100 \<longrightarrow>
        \<not> stopped (script r w)
        \<and> (\<exists>ws. screen (final (script r w)) =
              snd (load_models r) @ header
                @ [Markdown ''Step 2: Validate Inputs'', SuccessBinder,
                   if out_of_range (entered r) \<noteq> []
                   then WarningRanges (out_of_range (entered r)) else SuccessRanges,
                   Markdown ''Step 3: Predictions'']
                @ ws)
        \<and> (Button ''Predict rheological parameters'' \<in> set (screen (final (script r w)))
            \<longleftrightarrow> is_true (model_SYS (fst (load_models r)))
                \<and> is_true (model_DYS (fst (load_models r)))
                \<and> is_true (model_PV (fst (load_models r))))
        \<and> (is_true (model_SYS (fst (load_models r)))
            \<and> is_true (model_DYS (fst (load_models r)))
            \<and> is_true (model_PV (fst (load_models r))) \<and> clicked r \<longrightarrow>
              (\<exists>cs. invoked (final (script r w)) =
                 (''SYS'', feature_vector (entered r) 0) # cs))
        \<and> (is_true (model_SYS (fst (load_models r)))
            \<and> is_true (model_DYS (fst (load_models r)))
            \<and> is_true (model_PV (fst (load_models r))) \<and> \<not> clicked r \<longrightarrow>
              screen (final (script r w)) =
                snd (load_models r) @ header
                  @ [Markdown ''Step 2: Validate Inputs'', SuccessBinder,
                     if out_of_range (entered r) \<noteq> []
                     then WarningRanges (out_of_range (entered r)) else SuccessRanges,
                     Markdown ''Step 3: Predictions'',
                     Button ''Predict rheological parameters'', Markdown ''footer'']))"
  (is "?A \<and> ?B \<and> (?H \<longrightarrow> ?N \<and> ?P \<and> ?Q \<and> ?R \<and> ?S)")
proof (intro conjI)
  show "\<forall>(param, low, high, val) \<in> set (ranges m).
       filter (\<lambda>x. fst x = param) (out_of_range m) =
         (if low \<le> val \<and> val \<le> high then [] else [(param, val, low, high)])
       \<and> (val = low \<or> val = high \<longrightarrow> filter (\<lambda>x. fst x = param) (out_of_range m) = [])"
  proof (clarify, rule conjI)
    fix p l h v
    assume mem: "(p, l, h, v) \<in> set (ranges m)"
    from filter_one_field [OF distinct_ranges mem, of "\<lambda>(p, l, h, v). \<not> (l \<le> v \<and> v \<le> h)"]
    show f: "filter (\<lambda>x. fst x = p) (out_of_range m) =
        (if l \<le> v \<and> v \<le> h then [] else [(p, v, l, h)])"
      by (simp add: out_of_range_filter)
    from ranges_ordered [OF mem] f
    show "v = l \<or> v = h \<longrightarrow> filter (\<lambda>x. fst x = p) (out_of_range m) = []"
      by auto
  qed
next
  show "out_of_range m = [] \<longleftrightarrow>
      (\<forall>(param, low, high, val) \<in> set (ranges m). low \<le> val \<and> val \<le> high)"
    by (auto simp: out_of_range_filter filter_empty_conv)
next
  let ?ms = "fst (load_models r)"
  let ?gate = "is_true (model_SYS ?ms) \<and> is_true (model_DYS ?ms) \<and> is_true (model_PV ?ms)"
  let ?btn = "Button ''Predict rheological parameters''"
  let ?s = "check_ranges \<lparr>vars = entered r, world = w,
      screen = snd (load_models r) @ header @ [Markdown ''Step 2: Validate Inputs'', SuccessBinder],
      invoked = []\<rparr>"
  let ?b = "st ?btn (st (Markdown ''Step 3: Predictions'') ?s)"
  show "?H \<longrightarrow> ?N \<and> ?P \<and> ?Q \<and> ?R \<and> ?S"
  proof
    assume b: ?H
    have fin: "final (script r w) = st (Markdown ''footer'') (step3 ?ms (clicked r) ?s)"
      and nst: ?N
      using b by (simp_all add: script_eq)
    have page: "?btn \<notin> set (snd (load_models r))"
      using load_page_clean [of r] by (auto simp: list_all_iff)
    have head: "?btn \<notin> set header"
      by (simp add: header_def)
    obtain ws where ws: "screen (step3 ?ms (clicked r) ?s)
        = screen ?s @ Markdown ''Step 3: Predictions'' # ws"
      using step3_screen [of ?ms "clicked r" ?s] by (elim exE)
    have pre: ?P
      using ws by (simp add: fin)
    have button: ?Q
    proof (cases ?gate)
      case True
      obtain ws' where "screen (step3 ?ms (clicked r) ?s) =
          screen ?s @ Markdown ''Step 3: Predictions'' # ?btn # ws'"
        using step3_open_screen [OF True, of "clicked r" ?s] by (elim exE)
      with True show ?thesis by (simp add: fin)
    next
      case False
      from step3_closed [OF False, of "clicked r" ?s] False page head show ?thesis
        by (simp add: fin)
    qed
    have click: ?R
    proof
      assume g: "is_true (model_SYS ?ms) \<and> is_true (model_DYS ?ms)
          \<and> is_true (model_PV ?ms) \<and> clicked r"
      then have gate: ?gate and c: "clicked r" by simp_all
      from gate have sys: "is_true (model_SYS ?ms)" by simp
      obtain cs where "invoked (on_click ?ms ?b)
          = invoked ?b @ (''SYS'', feature_vector (vars ?b) 0) # cs"
        using on_click_first [OF sys, of ?b] by (elim exE)
      then have "invoked (final (script r w)) = (''SYS'', feature_vector (entered r) 0) # cs"
        using c by (simp add: fin step3_open [OF gate])
      then show "\<exists>cs. invoked (final (script r w)) = (''SYS'', feature_vector (entered r) 0) # cs"
        by (rule exI)
    qed
    have idle: ?S
    proof
      assume g: "is_true (model_SYS ?ms) \<and> is_true (model_DYS ?ms)
          \<and> is_true (model_PV ?ms) \<and> \<not> clicked r"
      then have gate: ?gate and c: "\<not> clicked r" by simp_all
      from c show "screen (final (script r w)) =
          snd (load_models r) @ header
            @ [Markdown ''Step 2: Validate Inputs'', SuccessBinder,
               if out_of_range (entered r) \<noteq> []
               then WarningRanges (out_of_range (entered r)) else SuccessRanges,
               Markdown ''Step 3: Predictions'', ?btn, Markdown ''footer'']"
        by (simp add: fin step3_open [OF gate])
    qed
    from nst pre button click idle show "?N \<and> ?P \<and> ?Q \<and> ?R \<and> ?S"
      by (intro conjI)
  qed
qed

lemma edge_run_models:
  "fst (load_models edge_run) =
     \<lparr>model_SYS = Some adder, model_DYS = Some adder, model_PV = Some adder\<rparr>"
  "snd (load_models edge_run) = []"
  by (simp_all add: load_models_eq fst_load_model snd_load_model edge_run_def)

lemma adder_calls:
  "invoked (on_click \<lparr>model_SYS = Some adder, model_DYS = Some adder, model_PV = Some adder\<rparr> s)
     = invoked s @
       [(''SYS'', feature_vector (vars s) 0), (''DYS'', feature_vector (vars s) 0),
        (''PV'', feature_vector (vars s) 0), (''SYS'', feature_vector (vars s) 1),
        (''DYS'', feature_vector (vars s) 1), (''PV'', feature_vector (vars s) 1)]"
  by (simp add: on_click_def predict_rows_def try_predict_def adder_def)

lemma edge_run_calls:
  "invoked (final (script edge_run 0)) =
     [(''SYS'', feature_vector edge_mix 0), (''DYS'', feature_vector edge_mix 0),
      (''PV'', feature_vector edge_mix 0), (''SYS'', feature_vector edge_mix 1),
      (''DYS'', feature_vector edge_mix 1), (''PV'', feature_vector edge_mix 1)]"
proof -
  let ?ms = "fst (load_models edge_run)"
  let ?s = "check_ranges \<lparr>vars = entered edge_run, world = 0,
      screen = snd (load_models edge_run) @ header
        @ [Markdown ''Step 2: Validate Inputs'', SuccessBinder],
      invoked = []\<rparr>"
  let ?b = "st (Button ''Predict rheological parameters'') (st (Markdown ''Step 3: Predictions'') ?s)"
  have b: "binder_sum edge_run (entered edge_run) = 100"
    by (simp add: binder_sum_def edge_run_def edge_mix_def)
  have e: "entered edge_run = edge_mix" and c: "clicked edge_run"
    by (simp_all add: edge_run_def)
  have g: "is_true (model_SYS ?ms) \<and> is_true (model_DYS ?ms) \<and> is_true (model_PV ?ms)"
    by (simp add: edge_run_models adder_def)
  from b have fin: "final (script edge_run 0) =
      st (Markdown ''footer'') (step3 ?ms (clicked edge_run) ?s)"
    by (simp add: script_eq)
  from c have "step3 ?ms (clicked edge_run) ?s = on_click ?ms ?b"
    by (simp add: step3_open [OF g])
  then have "invoked (final (script edge_run 0)) = invoked (on_click ?ms ?b)"
    by (simp add: fin)
  also have "\<dots> = invoked ?b @
       [(''SYS'', feature_vector (vars ?b) 0), (''DYS'', feature_vector (vars ?b) 0),
        (''PV'', feature_vector (vars ?b) 0), (''SYS'', feature_vector (vars ?b) 1),
        (''DYS'', feature_vector (vars ?b) 1), (''PV'', feature_vector (vars ?b) 1)]"
    by (simp add: edge_run_models(1) adder_calls)
  finally show ?thesis
    by (simp add: e)
qed

theorem range_check_inclusive_witness:
  "filter (\<lambda>x. fst x = ''OPC (%)'') (out_of_range edge_mix) = []
   \<and> filter (\<lambda>x. fst x = ''W/B'') (out_of_range edge_mix) = []
   \<and> filter (\<lambda>x. fst x = ''NC (%)'') (out_of_range edge_mix) = [(''NC (%)'', 7, 0, 5)]
   \<and> out_of_range edge_mix \<noteq> []
   \<and> binder_sum edge_run (entered edge_run) = 100
   \<and> \<not> stopped (script edge_run 0)
   \<and> Button ''Predict rheological parameters'' \<in> set (screen (final (script edge_run 0)))
   \<and> hd (invoked (final (script edge_run 0))) =
       (''SYS'', [40, 43, 14, 7, 3, 1 / 2, 2476979795053773 / 4503599627370496, 5 / 2, 0])
   \<and> length (invoked (final (script edge_run 0))) = 6"
proof -
  note t = range_check_inclusive [of edge_mix edge_run 0]
  have b: "binder_sum edge_run (entered edge_run) = 100"
    by (simp add: binder_sum_def edge_run_def edge_mix_def)
  have e: "entered edge_run = edge_mix" "clicked edge_run"
    by (simp_all add: edge_run_def)
  have g: "is_true (model_SYS (fst (load_models edge_run)))
      \<and> is_true (model_DYS (fst (load_models edge_run)))
      \<and> is_true (model_PV (fst (load_models edge_run)))"
    by (simp add: edge_run_models adder_def)
  have m1: "(''OPC (%)'', 40, 100, 40) \<in> set (ranges edge_mix)"
    and m2: "(''W/B'', 3602879701896397 / 9007199254740992,
              2476979795053773 / 4503599627370496,
              2476979795053773 / 4503599627370496) \<in> set (ranges edge_mix)"
    and m3: "(''NC (%)'', 0, 5, 7) \<in> set (ranges edge_mix)"
    by (simp_all add: ranges_def edge_mix_def)
  from conjunct1 [OF t] m1
  have f1: "filter (\<lambda>x. fst x = ''OPC (%)'') (out_of_range edge_mix) = []"
    by fastforce
  from conjunct1 [OF t] m2
  have f2: "filter (\<lambda>x. fst x = ''W/B'') (out_of_range edge_mix) = []"
    by fastforce
  from conjunct1 [OF t] m3
  have f3: "filter (\<lambda>x. fst x = ''NC (%)'') (out_of_range edge_mix) = [(''NC (%)'', 7, 0, 5)]"
    by fastforce
  from f3 have ne: "out_of_range edge_mix \<noteq> []"
    by auto
  note c = mp [OF conjunct2 [OF conjunct2 [OF t]] b]
  from c have ns: "\<not> stopped (script edge_run 0)"
    by (rule conjunct1)
  from c g have bt: "Button ''Predict rheological parameters''
      \<in> set (screen (final (script edge_run 0)))"
    by simp
  from c g e obtain cs where "invoked (final (script edge_run 0)) =
      (''SYS'', feature_vector edge_mix 0) # cs"
    by auto
  then have h: "hd (invoked (final (script edge_run 0))) =
      (''SYS'', [40, 43, 14, 7, 3, 1 / 2, 2476979795053773 / 4503599627370496, 5 / 2, 0])"
    by (simp add: feature_vector_def edge_mix_def)
  have n: "length (invoked (final (script edge_run 0))) = 6"
    by (simp add: edge_run_calls)
  from f1 f2 f3 ne b ns bt h n show ?thesis by simp
qed

subsection \<open>Unavailable models\<close>

lemma failed_load_shown:
  assumes "joblib_load r path = Inl e"
    and "path = ''GUI_SYS.joblib'' \<or> path = ''GUI_DYS.joblib'' \<or> path = ''GUI_PV.joblib''"
  shows "ErrorLoad path e \<in> set (snd (load_models r))"
  using assms(2)
proof (elim disjE)
  assume "path = ''GUI_SYS.joblib''"
  with assms(1) have "joblib_load r ''GUI_SYS.joblib'' = Inl e" by simp
  then show ?thesis
    using \<open>path = ''GUI_SYS.joblib''\<close> by (simp add: load_models_eq snd_load_model)
next
  assume "path = ''GUI_DYS.joblib''"
  with assms(1) have "joblib_load r ''GUI_DYS.joblib'' = Inl e" by simp
  then show ?thesis
    using \<open>path = ''GUI_DYS.joblib''\<close> by (simp add: load_models_eq snd_load_model)
next
  assume "path = ''GUI_PV.joblib''"
  with assms(1) have "joblib_load r ''GUI_PV.joblib'' = Inl e" by simp
  then show ?thesis
    using \<open>path = ''GUI_PV.joblib''\<close> by (simp add: load_models_eq snd_load_model)
qed

lemma failed_load_closes:
  assumes "joblib_load r path = Inl e"
    and "path = ''GUI_SYS.joblib'' \<or> path = ''GUI_DYS.joblib'' \<or> path = ''GUI_PV.joblib''"
  shows "\<not> (is_true (model_SYS (fst (load_models r))) \<and> is_true (model_DYS (fst (load_models r)))
        \<and> is_true (model_PV (fst (load_models r))))"
  using assms(2)
proof (elim disjE)
  assume "path = ''GUI_SYS.joblib''"
  with assms(1) have "joblib_load r ''GUI_SYS.joblib'' = Inl e" by simp
  then show ?thesis by (simp add: load_models_eq fst_load_model)
next
  assume "path = ''GUI_DYS.joblib''"
  with assms(1) have "joblib_load r ''GUI_DYS.joblib'' = Inl e" by simp
  then show ?thesis by (simp add: load_models_eq fst_load_model)
next
  assume "path = ''GUI_PV.joblib''"
  with assms(1) have "joblib_load r ''GUI_PV.joblib'' = Inl e" by simp
  then show ?thesis by (simp add: load_models_eq fst_load_model)
qed

text \<open>
  C3. If the load of any of the three artifacts raises then, in that run and whether or not
  a click is pending: the page shows the load error naming the artifact; it holds no
  button, no prediction error, no table and no chart; no model is called and the state of
  the models is untouched; and when the binder check passes, step 3 consists of the error
  that the models could not be loaded.
\<close>

theorem no_prediction_without_all_models:
  assumes "joblib_load r path = Inl e"
    and "path = ''GUI_SYS.joblib'' \<or> path = ''GUI_DYS.joblib'' \<or> path = ''GUI_PV.joblib''"
  shows "ErrorLoad path e \<in> set (snd (load_models r))
    \<and> screen (final (script r w)) =
        snd (load_models r) @ header @ Markdown ''Step 2: Validate Inputs''
          # (if binder_sum r (entered r) \<noteq> 100
             then [ErrorBinder (binder_sum r (entered r))]
             else [SuccessBinder,
                   if out_of_range (entered r) \<noteq> []
                   then WarningRanges (out_of_range (entered r)) else SuccessRanges,
                   Markdown ''Step 3: Predictions'', ErrorModels, Markdown ''footer''])
    \<and> list_all (\<lambda>x. \<not> is_prediction_output x) (screen (final (script r w)))
    \<and> invoked (final (script r w)) = []
    \<and> world (final (script r w)) = w"
proof -
  note mem = failed_load_shown [OF assms]
  note closed = failed_load_closes [OF assms]
  let ?s = "check_ranges \<lparr>vars = entered r, world = w,
      screen = snd (load_models r) @ header @ [Markdown ''Step 2: Validate Inputs'', SuccessBinder],
      invoked = []\<rparr>"
  note st3 = step3_closed [OF closed, of "clicked r" ?s]
  have page: "list_all (\<lambda>x. \<not> is_prediction_output x) (snd (load_models r))"
    using load_page_clean [of r] by (simp add: list_all_iff)
  have head: "list_all (\<lambda>x. \<not> is_prediction_output x) header"
    by (simp add: header_def)
  show ?thesis
  proof (cases "binder_sum r (entered r) = 100")
    case True
    then have fin: "final (script r w) = st (Markdown ''footer'') (step3 (fst (load_models r)) (clicked r) ?s)"
      by (simp add: script_eq)
    show ?thesis
      using mem page head True by (simp add: fin st3)
  next
    case False
    then have fin: "final (script r w) = \<lparr>vars = entered r, world = w,
        screen = snd (load_models r) @ header
          @ [Markdown ''Step 2: Validate Inputs'', ErrorBinder (binder_sum r (entered r))],
        invoked = []\<rparr>"
      by (simp add: script_eq)
    show ?thesis
      using mem page head False by (simp add: fin)
  qed
qed

theorem no_prediction_without_all_models_witness:
  "joblib_load missing_run ''GUI_SYS.joblib'' = Inl (Exception ''FileNotFoundError'')
   \<and> clicked missing_run
   \<and> screen (final (script missing_run 0)) =
       ErrorLoad ''GUI_SYS.joblib'' (Exception ''FileNotFoundError'') # header
         @ [Markdown ''Step 2: Validate Inputs'', SuccessBinder,
            WarningRanges [(''GYP (%)'', 12, 0, 3)],
            Markdown ''Step 3: Predictions'', ErrorModels, Markdown ''footer'']
   \<and> invoked (final (script missing_run 0)) = []
   \<and> world (final (script missing_run 0)) = 0"
proof -
  have l: "joblib_load missing_run ''GUI_SYS.joblib'' = Inl (Exception ''FileNotFoundError'')"
    by (simp add: missing_run_def)
  have c: "clicked missing_run"
    by (simp add: missing_run_def)
  have p: "snd (load_models missing_run) =
      [ErrorLoad ''GUI_SYS.joblib'' (Exception ''FileNotFoundError'')]"
    by (simp add: load_models_eq snd_load_model missing_run_def)
  have b: "binder_sum missing_run (entered missing_run) = 100"
    by (simp add: binder_sum_def missing_run_def spec_mix_def)
  have o: "out_of_range (entered missing_run) = [(''GYP (%)'', 12, 0, 3)]"
    by (simp add: out_of_range_def ranges_def missing_run_def spec_mix_def)
  have d: "''GUI_SYS.joblib'' = ''GUI_SYS.joblib'' \<or> ''GUI_SYS.joblib'' = ''GUI_DYS.joblib''
      \<or> ''GUI_SYS.joblib'' = ''GUI_PV.joblib''"
    by simp
  note t = no_prediction_without_all_models [OF l d, of 0]
  from conjunct1 [OF conjunct2 [OF t]]
  have s: "screen (final (script missing_run 0)) =
       ErrorLoad ''GUI_SYS.joblib'' (Exception ''FileNotFoundError'') # header
         @ [Markdown ''Step 2: Validate Inputs'', SuccessBinder,
            WarningRanges [(''GYP (%)'', 12, 0, 3)],
            Markdown ''Step 3: Predictions'', ErrorModels, Markdown ''footer'']"
    unfolding p b o by simp
  from conjunct2 [OF conjunct2 [OF conjunct2 [OF t]]]
  have i: "invoked (final (script missing_run 0)) = []
      \<and> world (final (script missing_run 0)) = 0" .
  from l c s i show ?thesis by (intro conjI) simp_all
qed

text \<open>
  C9. Step 3 offers the button exactly when the three variables are all true in Python's
  sense, where \<open>None\<close> is false and a loaded object has the truth value of the object. A
  loaded object that is false closes the gate just as \<open>None\<close> in its place does: the two
  runs of step 3 are equal, and the step shows the same error. For the whole script, the
  button is on the page exactly when the binder check passes and the three are true, and
  a variable is true exactly when its load returned an object that is true.
\<close>

theorem gate_tests_truthiness:
  "((\<exists>ws. screen (step3 ms click s) =
         screen s @ Markdown ''Step 3: Predictions''
           # Button ''Predict rheological parameters'' # ws)
      \<longleftrightarrow> is_true (model_SYS ms) \<and> is_true (model_DYS ms) \<and> is_true (model_PV ms))
   \<and> (\<not> truthy obj \<longrightarrow>
        step3 (ms\<lparr>model_SYS := Some obj\<rparr>) click s = step3 (ms\<lparr>model_SYS := None\<rparr>) click s
        \<and> step3 (ms\<lparr>model_DYS := Some obj\<rparr>) click s = step3 (ms\<lparr>model_DYS := None\<rparr>) click s
        \<and> step3 (ms\<lparr>model_PV := Some obj\<rparr>) click s = step3 (ms\<lparr>model_PV := None\<rparr>) click s
        \<and> step3 (ms\<lparr>model_SYS := Some obj\<rparr>) click s
            = st ErrorModels (st (Markdown ''Step 3: Predictions'') s))
   \<and> (Button ''Predict rheological parameters'' \<in> set (screen (final (script r w)))
      \<longleftrightarrow> binder_sum r (entered r) = 100
          \<and> is_true (model_SYS (fst (load_models r)))
          \<and> is_true (model_DYS (fst (load_models r)))
          \<and> is_true (model_PV (fst (load_models r))))
   \<and> (is_true (model_SYS (fst (load_models r)))
      \<longleftrightarrow> (case joblib_load r ''GUI_SYS.joblib'' of Inl e \<Rightarrow> False | Inr obj \<Rightarrow> truthy obj))
   \<and> (is_true (model_DYS (fst (load_models r)))
      \<longleftrightarrow> (case joblib_load r ''GUI_DYS.joblib'' of Inl e \<Rightarrow> False | Inr obj \<Rightarrow> truthy obj))
   \<and> (is_true (model_PV (fst (load_models r)))
      \<longleftrightarrow> (case joblib_load r ''GUI_PV.joblib'' of Inl e \<Rightarrow> False | Inr obj \<Rightarrow> truthy obj))"
proof (intro conjI)
  show "(\<exists>ws. screen (step3 ms click s) =
         screen s @ Markdown ''Step 3: Predictions''
           # Button ''Predict rheological parameters'' # ws)
      \<longleftrightarrow> is_true (model_SYS ms) \<and> is_true (model_DYS ms) \<and> is_true (model_PV ms)"
  proof (cases "is_true (model_SYS ms) \<and> is_true (model_DYS ms) \<and> is_true (model_PV ms)")
    case True
    from step3_open_screen [OF True] True show ?thesis by simp
  next
    case False
    from step3_closed [OF False] False show ?thesis by simp
  qed
next
  show "\<not> truthy obj \<longrightarrow>
        step3 (ms\<lparr>model_SYS := Some obj\<rparr>) click s = step3 (ms\<lparr>model_SYS := None\<rparr>) click s
        \<and> step3 (ms\<lparr>model_DYS := Some obj\<rparr>) click s = step3 (ms\<lparr>model_DYS := None\<rparr>) click s
        \<and> step3 (ms\<lparr>model_PV := Some obj\<rparr>) click s = step3 (ms\<lparr>model_PV := None\<rparr>) click s
        \<and> step3 (ms\<lparr>model_SYS := Some obj\<rparr>) click s
            = st ErrorModels (st (Markdown ''Step 3: Predictions'') s)"
    by (simp add: step3_closed)
next
  let ?ms = "fst (load_models r)"
  let ?b = "Button ''Predict rheological parameters''"
  have page: "?b \<notin> set (snd (load_models r))"
    using load_page_clean [of r] by (auto simp: list_all_iff)
  have head: "?b \<notin> set header"
    by (simp add: header_def)
  show "?b \<in> set (screen (final (script r w)))
      \<longleftrightarrow> binder_sum r (entered r) = 100
          \<and> is_true (model_SYS ?ms) \<and> is_true (model_DYS ?ms) \<and> is_true (model_PV ?ms)"
  proof (cases "binder_sum r (entered r) = 100")
    case False
    with page head show ?thesis by (simp add: script_eq)
  next
    case b: True
    let ?s = "check_ranges \<lparr>vars = entered r, world = w,
        screen = snd (load_models r) @ header @ [Markdown ''Step 2: Validate Inputs'', SuccessBinder],
        invoked = []\<rparr>"
    show ?thesis
    proof (cases "is_true (model_SYS ?ms) \<and> is_true (model_DYS ?ms) \<and> is_true (model_PV ?ms)")
      case True
      obtain ws where "screen (step3 ?ms (clicked r) ?s) =
          screen ?s @ Markdown ''Step 3: Predictions'' # ?b # ws"
        using step3_open_screen [OF True, of "clicked r" ?s] by (elim exE)
      with b True show ?thesis by (simp add: script_eq)
    next
      case False
      from step3_closed [OF False, of "clicked r" ?s] b False page head show ?thesis
        by (simp add: script_eq)
    qed
  qed
next
  show "is_true (model_SYS (fst (load_models r)))
      \<longleftrightarrow> (case joblib_load r ''GUI_SYS.joblib'' of Inl e \<Rightarrow> False | Inr obj \<Rightarrow> truthy obj)"
    by (simp add: load_models_eq fst_load_model split: sum.splits)
next
  show "is_true (model_DYS (fst (load_models r)))
      \<longleftrightarrow> (case joblib_load r ''GUI_DYS.joblib'' of Inl e \<Rightarrow> False | Inr obj \<Rightarrow> truthy obj)"
    by (simp add: load_models_eq fst_load_model split: sum.splits)
next
  show "is_true (model_PV (fst (load_models r)))
      \<longleftrightarrow> (case joblib_load r ''GUI_PV.joblib'' of Inl e \<Rightarrow> False | Inr obj \<Rightarrow> truthy obj)"
    by (simp add: load_models_eq fst_load_model split: sum.splits)
qed

theorem gate_tests_truthiness_witness:
  "joblib_load falsy_run ''GUI_DYS.joblib'' = Inr empty_model
   \<and> \<not> truthy empty_model
   \<and> step3 (fst (load_models falsy_run)) True click_state
       = st ErrorModels (st (Markdown ''Step 3: Predictions'') click_state)
   \<and> step3 (fst (load_models falsy_run)) True click_state
       = step3 ((fst (load_models falsy_run))\<lparr>model_DYS := None\<rparr>) True click_state
   \<and> Button ''Predict rheological parameters'' \<notin> set (screen (final (script falsy_run 0)))
   \<and> Button ''Predict rheological parameters'' \<in> set (screen (final (script good_run 0)))"
proof -
  have l: "joblib_load falsy_run ''GUI_DYS.joblib'' = Inr empty_model"
    by (simp add: falsy_run_def)
  have f: "\<not> truthy empty_model"
    by (simp add: empty_model_def)
  have ms: "fst (load_models falsy_run) =
      \<lparr>model_SYS = Some adder, model_DYS = Some empty_model, model_PV = Some adder\<rparr>"
    by (simp add: load_models_eq fst_load_model falsy_run_def)
  have ms': "fst (load_models falsy_run) =
      (fst (load_models falsy_run))\<lparr>model_DYS := Some empty_model\<rparr>"
    by (simp add: ms)
  have g: "fst (load_models good_run) =
      \<lparr>model_SYS = Some adder, model_DYS = Some adder, model_PV = Some adder\<rparr>"
    by (simp add: load_models_eq fst_load_model good_run_def)
  have b: "binder_sum good_run (entered good_run) = 100"
    by (simp add: binder_sum_def good_run_def spec_mix_def)
  note t = gate_tests_truthiness [of "fst (load_models falsy_run)" True click_state empty_model falsy_run 0]
  from t f have e1: "step3 ((fst (load_models falsy_run))\<lparr>model_DYS := Some empty_model\<rparr>) True click_state
      = step3 ((fst (load_models falsy_run))\<lparr>model_DYS := None\<rparr>) True click_state"
    by simp
  from t f have "step3 ((fst (load_models falsy_run))\<lparr>model_DYS := None\<rparr>) True click_state
      = st ErrorModels (st (Markdown ''Step 3: Predictions'') click_state)"
    by (simp add: ms step3_closed)
  with e1 ms' have e2: "step3 (fst (load_models falsy_run)) True click_state
      = st ErrorModels (st (Markdown ''Step 3: Predictions'') click_state)"
    by simp
  from e1 ms' have e3: "step3 (fst (load_models falsy_run)) True click_state
      = step3 ((fst (load_models falsy_run))\<lparr>model_DYS := None\<rparr>) True click_state"
    by simp
  from t f have n: "Button ''Predict rheological parameters''
      \<notin> set (screen (final (script falsy_run 0)))"
    by (simp add: ms)
  from gate_tests_truthiness [of "fst (load_models good_run)" True click_state adder good_run 0] b
  have y: "Button ''Predict rheological parameters'' \<in> set (screen (final (script good_run 0)))"
    by (simp add: g adder_def)
  from l f e2 e3 n y show ?thesis by simp
qed

subsection \<open>The time loop\<close>

lemma call_predict_st:
  "call_predict name mo x (st wdg s) =
     (case call_predict name mo x s of (res, s') \<Rightarrow> (res, st wdg s'))"
  by (cases mo) (simp_all add: st_def split: prod.splits)

lemma try_predict_st:
  "try_predict ms x (st wdg s) =
     (case try_predict ms x s of (res, s') \<Rightarrow> (res, st wdg s'))"
  by (simp add: try_predict_def call_predict_st split: prod.splits sum.splits)

lemma time_loop_one:
  assumes "try_predict ms (feature_vector (vars s) time_val) s = (res, s')"
  shows "time_loop ms [(time_val, label)] results s =
     (results @ rows_of label res, s'\<lparr>screen := screen s' @ errors_of label res\<rparr>)"
proof (cases res)
  case (Inl e)
  with assms show ?thesis by (simp add: st_def)
next
  case (Inr p)
  obtain a b c where "p = (a, b, c)" by (cases p)
  with Inr assms show ?thesis by simp
qed

lemma predict_rows_unfold:
  assumes t0: "try_predict ms (feature_vector (vars s) 0) s = (r0, s1)"
    and t1: "try_predict ms (feature_vector (vars s) 1) s1 = (r1, s2)"
  shows "predict_rows ms s =
     (rows_of ''10 min'' r0 @ rows_of ''30 min'' r1,
      s2\<lparr>screen := screen s @ errors_of ''10 min'' r0 @ errors_of ''30 min'' r1\<rparr>)"
proof -
  from try_predict_frame [OF t0] have f0: "vars s1 = vars s" "screen s1 = screen s"
    by simp_all
  from try_predict_frame [OF t1] have f1: "vars s2 = vars s1" "screen s2 = screen s1"
    by simp_all
  show ?thesis
  proof (cases r0)
    case (Inl e0)
    let ?s1 = "st (ErrorPrediction ''10 min'' e0) s1"
    have "try_predict ms (feature_vector (vars ?s1) 1) ?s1 = (r1, st (ErrorPrediction ''10 min'' e0) s2)"
      using t1 f0 by (simp add: try_predict_st)
    from time_loop_one [OF this, of "''30 min''" "[]"]
    have "time_loop ms [(1, ''30 min'')] [] ?s1 =
        (rows_of ''30 min'' r1,
         s2\<lparr>screen := screen s @ ErrorPrediction ''10 min'' e0 # errors_of ''30 min'' r1\<rparr>)"
      using f0 f1 by (simp add: st_def)
    with Inl t0 show ?thesis
      by (simp add: predict_rows_def)
  next
    case (Inr p)
    obtain a b c where p: "p = (a, b, c)" by (cases p)
    from t1 f0 have "try_predict ms (feature_vector (vars s1) 1) s1 = (r1, s2)"
      by simp
    from time_loop_one [OF this, of "''30 min''" "[(''10 min'', a, b, c)]"]
    have "time_loop ms [(1, ''30 min'')] [(''10 min'', a, b, c)] s1 =
        ((''10 min'', a, b, c) # rows_of ''30 min'' r1,
         s2\<lparr>screen := screen s @ errors_of ''30 min'' r1\<rparr>)"
      using f0 f1 by simp
    with Inr p t0 show ?thesis
      by (simp add: predict_rows_def)
  qed
qed

lemma on_click_unfold:
  assumes t0: "try_predict ms (feature_vector (vars s) 0) s = (r0, s1)"
    and t1: "try_predict ms (feature_vector (vars s) 1) s1 = (r1, s2)"
  shows "on_click ms s =
     s2\<lparr>screen := screen s @ errors_of ''10 min'' r0 @ errors_of ''30 min'' r1
          @ (if rows_of ''10 min'' r0 @ rows_of ''30 min'' r1 \<noteq> []
             then present (rows_of ''10 min'' r0 @ rows_of ''30 min'' r1) else [])\<rparr>"
  by (simp add: on_click_def predict_rows_unfold [OF t0 t1])

text \<open>
  C8. If the \<^verbatim>\<open>try\<close> raises for both time indicators, \<^verbatim>\<open>results\<close> stays empty and the
  click adds to the page the two errors, for 10 min and then for 30 min, and nothing else:
  no subheader, no table and no chart.
\<close>

theorem both_fail_only_errors:
  assumes "try_predict ms (feature_vector (vars s) 0) s = (Inl e0, s1)"
    and "try_predict ms (feature_vector (vars s) 1) s1 = (Inl e1, s2)"
  shows "fst (predict_rows ms s) = []
    \<and> on_click ms s =
        s2\<lparr>screen := screen s @ [ErrorPrediction ''10 min'' e0, ErrorPrediction ''30 min'' e1]\<rparr>
    \<and> screen (on_click ms s) =
        screen s @ [ErrorPrediction ''10 min'' e0, ErrorPrediction ''30 min'' e1]"
  by (simp add: predict_rows_unfold [OF assms] on_click_unfold [OF assms])

theorem both_fail_only_errors_witness:
  "try_predict broken_models (feature_vector (vars click_state) 0) click_state =
     (Inl (Exception ''ValueError''),
      \<lparr>vars = spec_mix, world = 1, screen = [],
       invoked = [(''SYS'', feature_vector spec_mix 0)]\<rparr>)
   \<and> fst (predict_rows broken_models click_state) = []
   \<and> on_click broken_models click_state =
       \<lparr>vars = spec_mix, world = 2,
        screen = [ErrorPrediction ''10 min'' (Exception ''ValueError''),
                  ErrorPrediction ''30 min'' (Exception ''ValueError'')],
        invoked = [(''SYS'', feature_vector spec_mix 0), (''SYS'', feature_vector spec_mix 1)]\<rparr>"
proof -
  let ?s1 = "\<lparr>vars = spec_mix, world = 1, screen = [],
      invoked = [(''SYS'', feature_vector spec_mix 0)]\<rparr> :: nat state"
  let ?s2 = "\<lparr>vars = spec_mix, world = 2, screen = [],
      invoked = [(''SYS'', feature_vector spec_mix 0), (''SYS'', feature_vector spec_mix 1)]\<rparr>
      :: nat state"
  have t0: "try_predict broken_models (feature_vector (vars click_state) 0) click_state =
      (Inl (Exception ''ValueError''), ?s1)"
    by (simp add: try_predict_def broken_models_def broken_def click_state_def)
  have t1: "try_predict broken_models (feature_vector (vars click_state) 1) ?s1 =
      (Inl (Exception ''ValueError''), ?s2)"
    by (simp add: try_predict_def broken_models_def broken_def click_state_def)
  from both_fail_only_errors [OF t0 t1] t0 show ?thesis
    by (simp add: click_state_def)
qed



subsection \<open>The inputs and the feature vectors\<close>

lemma call_predict_calls:
  "call_predict name mo x s = (res, s') \<Longrightarrow>
     \<exists>cs. invoked s' = invoked s @ cs \<and> list_all (\<lambda>c. snd c = x) cs"
  by (cases mo) (auto split: prod.splits)

lemma try_predict_calls:
  assumes "try_predict ms x s = (res, s')"
  shows "\<exists>cs. invoked s' = invoked s @ cs \<and> list_all (\<lambda>c. snd c = x) cs"
proof -
  obtain r1 s1 where c1: "call_predict ''SYS'' (model_SYS ms) x s = (r1, s1)"
    by (cases "call_predict ''SYS'' (model_SYS ms) x s")
  from call_predict_calls [OF c1] obtain cs1
    where i1: "invoked s1 = invoked s @ cs1" "list_all (\<lambda>c. snd c = x) cs1"
    by (elim exE conjE)
  show ?thesis
  proof (cases r1)
    case (Inl e)
    with assms c1 have "s' = s1" by (simp add: try_predict_def)
    with i1 show ?thesis by simp
  next
    case (Inr a)
    obtain r2 s2 where c2: "call_predict ''DYS'' (model_DYS ms) x s1 = (r2, s2)"
      by (cases "call_predict ''DYS'' (model_DYS ms) x s1")
    from call_predict_calls [OF c2] obtain cs2
      where i2: "invoked s2 = invoked s1 @ cs2" "list_all (\<lambda>c. snd c = x) cs2"
      by (elim exE conjE)
    show ?thesis
    proof (cases r2)
      case (Inl e)
      with assms c1 c2 \<open>r1 = Inr a\<close> have "s' = s2" by (simp add: try_predict_def)
      with i1 i2 have "invoked s' = invoked s @ (cs1 @ cs2) \<and> list_all (\<lambda>c. snd c = x) (cs1 @ cs2)"
        by simp
      then show ?thesis by (rule exI)
    next
      case (Inr b)
      obtain r3 s3 where c3: "call_predict ''PV'' (model_PV ms) x s2 = (r3, s3)"
        by (cases "call_predict ''PV'' (model_PV ms) x s2")
      from call_predict_calls [OF c3] obtain cs3
        where i3: "invoked s3 = invoked s2 @ cs3" "list_all (\<lambda>c. snd c = x) cs3"
        by (elim exE conjE)
      from assms c1 c2 c3 \<open>r1 = Inr a\<close> \<open>r2 = Inr b\<close> have "s' = s3"
        by (simp add: try_predict_def split: sum.splits)
      with i1 i2 i3
      have "invoked s' = invoked s @ (cs1 @ cs2 @ cs3)
          \<and> list_all (\<lambda>c. snd c = x) (cs1 @ cs2 @ cs3)"
        by simp
      then show ?thesis by (rule exI)
    qed
  qed
qed

lemma on_click_calls:
  "\<exists>cs0 cs1. invoked (on_click ms s) = invoked s @ cs0 @ cs1
     \<and> list_all (\<lambda>c. snd c = feature_vector (vars s) 0) cs0
     \<and> list_all (\<lambda>c. snd c = feature_vector (vars s) 1) cs1"
proof -
  obtain r0 s1 where t0: "try_predict ms (feature_vector (vars s) 0) s = (r0, s1)"
    by (cases "try_predict ms (feature_vector (vars s) 0) s")
  obtain r1 s2 where t1: "try_predict ms (feature_vector (vars s) 1) s1 = (r1, s2)"
    by (cases "try_predict ms (feature_vector (vars s) 1) s1")
  from try_predict_calls [OF t0] obtain cs0
    where i0: "invoked s1 = invoked s @ cs0"
      "list_all (\<lambda>c. snd c = feature_vector (vars s) 0) cs0"
    by (elim exE conjE)
  from try_predict_calls [OF t1] obtain cs1
    where i1: "invoked s2 = invoked s1 @ cs1"
      "list_all (\<lambda>c. snd c = feature_vector (vars s) 1) cs1"
    by (elim exE conjE)
  from i0 i1 have "invoked (on_click ms s) = invoked s @ cs0 @ cs1
     \<and> list_all (\<lambda>c. snd c = feature_vector (vars s) 0) cs0
     \<and> list_all (\<lambda>c. snd c = feature_vector (vars s) 1) cs1"
    by (simp add: on_click_unfold [OF t0 t1])
  then show ?thesis by (intro exI)
qed

lemma step3_calls:
  "\<exists>cs0 cs1. invoked (step3 ms click s) = invoked s @ cs0 @ cs1
     \<and> list_all (\<lambda>c. snd c = feature_vector (vars s) 0) cs0
     \<and> list_all (\<lambda>c. snd c = feature_vector (vars s) 1) cs1"
proof (cases "is_true (model_SYS ms) \<and> is_true (model_DYS ms) \<and> is_true (model_PV ms) \<and> click")
  case True
  then have g: "is_true (model_SYS ms) \<and> is_true (model_DYS ms) \<and> is_true (model_PV ms)"
    and c: click by simp_all
  let ?b = "st (Button ''Predict rheological parameters'') (st (Markdown ''Step 3: Predictions'') s)"
  from on_click_calls [of ms ?b] c show ?thesis
    by (simp add: step3_open [OF g])
next
  case False
  have "invoked (step3 ms click s) = invoked s"
  proof (cases "is_true (model_SYS ms) \<and> is_true (model_DYS ms) \<and> is_true (model_PV ms)")
    case g: True
    with False have "\<not> click" by simp
    then show ?thesis by (simp add: step3_open [OF g])
  next
    case g: False
    then show ?thesis by (simp add: step3_closed [OF g])
  qed
  then have "invoked (step3 ms click s) = invoked s @ [] @ []
     \<and> list_all (\<lambda>c. snd c = feature_vector (vars s) 0) []
     \<and> list_all (\<lambda>c. snd c = feature_vector (vars s) 1) []"
    by simp
  then show ?thesis by (intro exI)
qed

text \<open>
  C10. Validation reads the eight values and changes none of them: the binder check and
  the range check leave the variables, the state of the models and the log of calls as
  they were, and at the end of every run, stopped or not, the variables hold what was
  entered. Every feature vector passed to a model is the eight entered values, in their
  order, followed by the time indicator, first those of time 0 and then those of time 1;
  the bounds of the range check occur nowhere in it, so a value outside its range is
  passed as entered.
\<close>

theorem inputs_never_altered:
  "vars (final (script r w)) = entered r
   \<and> (\<exists>cs0 cs1. invoked (final (script r w)) = cs0 @ cs1
        \<and> list_all (\<lambda>c. snd c = feature_vector (entered r) 0) cs0
        \<and> list_all (\<lambda>c. snd c = feature_vector (entered r) 1) cs1)
   \<and> feature_vector (entered r) t =
       [opc (entered r), cc (entered r), lp (entered r), nc (entered r), gyp (entered r),
        sb (entered r), wb (entered r), sp (entered r), t]
   \<and> vars (final (check_binder r s)) = vars s
   \<and> world (final (check_binder r s)) = world s
   \<and> invoked (final (check_binder r s)) = invoked s
   \<and> vars (check_ranges s) = vars s
   \<and> world (check_ranges s) = world s
   \<and> invoked (check_ranges s) = invoked s"
proof (intro conjI)
  let ?s = "check_ranges \<lparr>vars = entered r, world = w,
      screen = snd (load_models r) @ header @ [Markdown ''Step 2: Validate Inputs'', SuccessBinder],
      invoked = []\<rparr>"
  show "vars (final (script r w)) = entered r"
    by (simp add: script_eq step3_vars)
  show "\<exists>cs0 cs1. invoked (final (script r w)) = cs0 @ cs1
        \<and> list_all (\<lambda>c. snd c = feature_vector (entered r) 0) cs0
        \<and> list_all (\<lambda>c. snd c = feature_vector (entered r) 1) cs1"
  proof (cases "binder_sum r (entered r) = 100")
    case True
    from step3_calls [of "fst (load_models r)" "clicked r" ?s] True show ?thesis
      by (simp add: script_eq)
  next
    case False
    then have "invoked (final (script r w)) = [] @ []
        \<and> list_all (\<lambda>c. snd c = feature_vector (entered r) 0) []
        \<and> list_all (\<lambda>c. snd c = feature_vector (entered r) 1) []"
      by (simp add: script_eq)
    then show ?thesis by (intro exI)
  qed
  show "feature_vector (entered r) t =
       [opc (entered r), cc (entered r), lp (entered r), nc (entered r), gyp (entered r),
        sb (entered r), wb (entered r), sp (entered r), t]"
    by (simp add: feature_vector_def)
  show "vars (final (check_binder r s)) = vars s"
    by (simp add: check_binder_def)
  show "world (final (check_binder r s)) = world s"
    by (simp add: check_binder_def)
  show "invoked (final (check_binder r s)) = invoked s"
    by (simp add: check_binder_def)
  show "vars (check_ranges s) = vars s"
    by simp
  show "world (check_ranges s) = world s"
    by simp
  show "invoked (check_ranges s) = invoked s"
    by simp
qed

theorem inputs_never_altered_witness:
  "out_of_range (entered edge_run) = [(''NC (%)'', 7, 0, 5)]
   \<and> vars (final (script edge_run 0)) = edge_mix
   \<and> list_all (\<lambda>c. snd c = [40, 43, 14, 7, 3, 1 / 2, 2476979795053773 / 4503599627370496, 5 / 2, 0]
                 \<or> snd c = [40, 43, 14, 7, 3, 1 / 2, 2476979795053773 / 4503599627370496, 5 / 2, 1])
       (invoked (final (script edge_run 0)))
   \<and> length (invoked (final (script edge_run 0))) = 6
   \<and> vars (check_ranges click_state) = vars click_state"
proof -
  note t = inputs_never_altered [of edge_run 0 0 click_state]
  have e: "entered edge_run = edge_mix"
    by (simp add: edge_run_def)
  have o: "out_of_range (entered edge_run) = [(''NC (%)'', 7, 0, 5)]"
    by (simp add: out_of_range_def ranges_def edge_run_def edge_mix_def)
  from t e have v: "vars (final (script edge_run 0)) = edge_mix"
    by simp
  have x: "feature_vector edge_mix 0 =
        [40, 43, 14, 7, 3, 1 / 2, 2476979795053773 / 4503599627370496, 5 / 2, 0]"
      "feature_vector edge_mix 1 =
        [40, 43, 14, 7, 3, 1 / 2, 2476979795053773 / 4503599627370496, 5 / 2, 1]"
    by (simp_all add: feature_vector_def edge_mix_def)
  from conjunct1 [OF conjunct2 [OF t]] obtain cs0 cs1
    where i: "invoked (final (script edge_run 0)) = cs0 @ cs1"
      and l0: "list_all (\<lambda>c. snd c = feature_vector (entered edge_run) 0) cs0"
      and l1: "list_all (\<lambda>c. snd c = feature_vector (entered edge_run) 1) cs1"
    by (elim exE conjE)
  from l0 l1 have la: "list_all (\<lambda>c. snd c = feature_vector edge_mix 0
      \<or> snd c = feature_vector edge_mix 1) (cs0 @ cs1)"
    by (auto simp: e list_all_iff)
  have n: "length (invoked (final (script edge_run 0))) = 6"
    by (simp add: edge_run_calls)
  from t have c: "vars (check_ranges click_state) = vars click_state"
    by simp
  from o v la n c show ?thesis
    by (simp add: i x)
qed

subsection \<open>A prediction that succeeds\<close>

lemma call_predict_returns:
  assumes "predict obj x (world s) = (Inr v, w')"
  shows "call_predict name (Some obj) x s =
     (Inr v, s\<lparr>world := w', invoked := invoked s @ [(name, x)]\<rparr>)"
  using assms by simp





subsection \<open>Deterministic models\<close>

lemma call_predict_det:
  assumes "deterministic mo"
  shows "\<exists>res cs. \<forall>t. fst (call_predict name mo x t) = res
     \<and> invoked (snd (call_predict name mo x t)) = invoked t @ cs"
proof (cases mo)
  case None
  have "\<forall>t. fst (call_predict name mo x t) = Inl (Exception ''AttributeError'')
     \<and> invoked (snd (call_predict name mo x t)) = invoked t @ []"
    by (simp add: None)
  then show ?thesis by (intro exI)
next
  case (Some obj)
  with assms have d: "\<And>w w'. fst (predict obj x w) = fst (predict obj x w')"
    by (simp add: deterministic_def)
  have "\<forall>t. fst (call_predict name mo x t) = fst (predict obj x undefined)
     \<and> invoked (snd (call_predict name mo x t)) = invoked t @ [(name, x)]"
  proof
    fix t :: "'a state"
    from d [of "world t" undefined]
    show "fst (call_predict name mo x t) = fst (predict obj x undefined)
       \<and> invoked (snd (call_predict name mo x t)) = invoked t @ [(name, x)]"
      by (cases "predict obj x (world t)") (simp add: Some)
  qed
  then show ?thesis by (intro exI)
qed

lemma try_predict_cases:
  "try_predict ms x s =
     (case fst (call_predict ''SYS'' (model_SYS ms) x s) of
        Inl e \<Rightarrow> (Inl e, snd (call_predict ''SYS'' (model_SYS ms) x s))
      | Inr a \<Rightarrow>
          (case fst (call_predict ''DYS'' (model_DYS ms) x
                       (snd (call_predict ''SYS'' (model_SYS ms) x s))) of
             Inl e \<Rightarrow> (Inl e, snd (call_predict ''DYS'' (model_DYS ms) x
                                   (snd (call_predict ''SYS'' (model_SYS ms) x s))))
           | Inr b \<Rightarrow>
               (case fst (call_predict ''PV'' (model_PV ms) x
                            (snd (call_predict ''DYS'' (model_DYS ms) x
                               (snd (call_predict ''SYS'' (model_SYS ms) x s))))) of
                  Inl e \<Rightarrow> (Inl e, snd (call_predict ''PV'' (model_PV ms) x
                            (snd (call_predict ''DYS'' (model_DYS ms) x
                               (snd (call_predict ''SYS'' (model_SYS ms) x s))))))
                | Inr c \<Rightarrow> (Inr (a, b, c), snd (call_predict ''PV'' (model_PV ms) x
                            (snd (call_predict ''DYS'' (model_DYS ms) x
                               (snd (call_predict ''SYS'' (model_SYS ms) x s)))))))))"
  by (simp add: try_predict_def split: prod.splits sum.splits)

lemma try_predict_det:
  assumes "deterministic (model_SYS ms)" "deterministic (model_DYS ms)"
    "deterministic (model_PV ms)"
  shows "\<exists>res cs. \<forall>t. fst (try_predict ms x t) = res
     \<and> invoked (snd (try_predict ms x t)) = invoked t @ cs"
proof -
  from call_predict_det [OF assms(1), of "''SYS''" x] obtain r1 cs1
    where c1: "\<And>t. fst (call_predict ''SYS'' (model_SYS ms) x t) = r1"
      "\<And>t. invoked (snd (call_predict ''SYS'' (model_SYS ms) x t)) = invoked t @ cs1"
    by (elim exE) simp
  from call_predict_det [OF assms(2), of "''DYS''" x] obtain r2 cs2
    where c2: "\<And>t. fst (call_predict ''DYS'' (model_DYS ms) x t) = r2"
      "\<And>t. invoked (snd (call_predict ''DYS'' (model_DYS ms) x t)) = invoked t @ cs2"
    by (elim exE) simp
  from call_predict_det [OF assms(3), of "''PV''" x] obtain r3 cs3
    where c3: "\<And>t. fst (call_predict ''PV'' (model_PV ms) x t) = r3"
      "\<And>t. invoked (snd (call_predict ''PV'' (model_PV ms) x t)) = invoked t @ cs3"
    by (elim exE) simp
  show ?thesis
  proof (cases r1)
    case (Inl e)
    then have "\<forall>t. fst (try_predict ms x t) = Inl e
        \<and> invoked (snd (try_predict ms x t)) = invoked t @ cs1"
      by (simp add: try_predict_cases c1)
    then show ?thesis by (intro exI)
  next
    case a: (Inr a)
    show ?thesis
    proof (cases r2)
      case (Inl e)
      with a have "\<forall>t. fst (try_predict ms x t) = Inl e
          \<and> invoked (snd (try_predict ms x t)) = invoked t @ (cs1 @ cs2)"
        by (simp add: try_predict_cases c1 c2)
      then show ?thesis by (intro exI)
    next
      case b: (Inr b)
      show ?thesis
      proof (cases r3)
        case (Inl e)
        with a b have "\<forall>t. fst (try_predict ms x t) = Inl e
            \<and> invoked (snd (try_predict ms x t)) = invoked t @ (cs1 @ cs2 @ cs3)"
          by (simp add: try_predict_cases c1 c2 c3)
        then show ?thesis by (intro exI)
      next
        case (Inr c)
        with a b have "\<forall>t. fst (try_predict ms x t) = Inr (a, b, c)
            \<and> invoked (snd (try_predict ms x t)) = invoked t @ (cs1 @ cs2 @ cs3)"
          by (simp add: try_predict_cases c1 c2 c3)
        then show ?thesis by (intro exI)
      qed
    qed
  qed
qed

lemma on_click_det:
  assumes "deterministic (model_SYS ms)" "deterministic (model_DYS ms)"
    "deterministic (model_PV ms)"
  shows "\<exists>rows ws cs. \<forall>t. vars t = v \<longrightarrow>
       fst (predict_rows ms t) = rows
     \<and> screen (on_click ms t) = screen t @ ws
     \<and> invoked (on_click ms t) = invoked t @ cs"
proof -
  from try_predict_det [OF assms, of "feature_vector v 0"] obtain r0 cs0
    where d0: "\<And>t. fst (try_predict ms (feature_vector v 0) t) = r0"
      "\<And>t. invoked (snd (try_predict ms (feature_vector v 0) t)) = invoked t @ cs0"
    by (elim exE) simp
  from try_predict_det [OF assms, of "feature_vector v 1"] obtain r1 cs1
    where d1: "\<And>t. fst (try_predict ms (feature_vector v 1) t) = r1"
      "\<And>t. invoked (snd (try_predict ms (feature_vector v 1) t)) = invoked t @ cs1"
    by (elim exE) simp
  let ?rows = "rows_of ''10 min'' r0 @ rows_of ''30 min'' r1"
  let ?ws = "errors_of ''10 min'' r0 @ errors_of ''30 min'' r1
      @ (if ?rows \<noteq> [] then present ?rows else [])"
  have "\<forall>t. vars t = v \<longrightarrow>
       fst (predict_rows ms t) = ?rows
     \<and> screen (on_click ms t) = screen t @ ?ws
     \<and> invoked (on_click ms t) = invoked t @ (cs0 @ cs1)"
  proof (intro allI impI)
    fix t :: "'a state"
    assume v: "vars t = v"
    let ?s1 = "snd (try_predict ms (feature_vector v 0) t)"
    let ?s2 = "snd (try_predict ms (feature_vector v 1) ?s1)"
    have t0: "try_predict ms (feature_vector (vars t) 0) t = (r0, ?s1)"
      using d0(1) [of t] v by (cases "try_predict ms (feature_vector v 0) t") simp
    have t1: "try_predict ms (feature_vector (vars t) 1) ?s1 = (r1, ?s2)"
      using d1(1) [of ?s1] v by (cases "try_predict ms (feature_vector v 1) ?s1") simp
    have i: "invoked ?s2 = invoked t @ (cs0 @ cs1)"
      by (simp add: d0(2) d1(2))
    show "fst (predict_rows ms t) = ?rows
       \<and> screen (on_click ms t) = screen t @ ?ws
       \<and> invoked (on_click ms t) = invoked t @ (cs0 @ cs1)"
      using i by (simp add: predict_rows_unfold [OF t0 t1] on_click_unfold [OF t0 t1])
  qed
  then show ?thesis by (intro exI)
qed

text \<open>
  C7. Let the three models be deterministic: what \<^verbatim>\<open>predict\<close> returns or raises depends on
  the feature vector only, not on the state it is called in. Then two clicks in states
  that hold the same eight values, whatever else differs, build the same feature vectors,
  make the same calls, get the same list of rows and add the same widgets to the page; this
  holds in particular for a second click in the state the first one left. Neither click
  changes any of the eight variables.
\<close>

theorem predict_is_deterministic:
  assumes "deterministic (model_SYS ms)" and "deterministic (model_DYS ms)"
    and "deterministic (model_PV ms)" and "vars s = vars s'"
  shows "fst (predict_rows ms s) = fst (predict_rows ms s')
    \<and> (\<exists>ws. screen (on_click ms s) = screen s @ ws \<and> screen (on_click ms s') = screen s' @ ws)
    \<and> (\<exists>cs. invoked (on_click ms s) = invoked s @ cs
          \<and> invoked (on_click ms s') = invoked s' @ cs)
    \<and> feature_vector (vars s) t = feature_vector (vars s') t
    \<and> vars (on_click ms s) = vars s
    \<and> vars (on_click ms s') = vars s'
    \<and> fst (predict_rows ms (on_click ms s)) = fst (predict_rows ms s)"
proof -
  from on_click_det [OF assms(1-3), of "vars s"] obtain rows ws cs
    where d: "\<And>t. vars t = vars s \<Longrightarrow>
         fst (predict_rows ms t) = rows
       \<and> screen (on_click ms t) = screen t @ ws
       \<and> invoked (on_click ms t) = invoked t @ cs"
    by (elim exE) simp
  from d [of s] have a: "fst (predict_rows ms s) = rows"
    "screen (on_click ms s) = screen s @ ws" "invoked (on_click ms s) = invoked s @ cs"
    by simp_all
  from d [of s'] assms(4) have b: "fst (predict_rows ms s') = rows"
    "screen (on_click ms s') = screen s' @ ws" "invoked (on_click ms s') = invoked s' @ cs"
    by simp_all
  from d [of "on_click ms s"] have c: "fst (predict_rows ms (on_click ms s)) = rows"
    by (simp add: on_click_vars)
  have w: "\<exists>ws. screen (on_click ms s) = screen s @ ws \<and> screen (on_click ms s') = screen s' @ ws"
    using a(2) b(2) by (intro exI conjI)
  have i: "\<exists>cs. invoked (on_click ms s) = invoked s @ cs
      \<and> invoked (on_click ms s') = invoked s' @ cs"
    using a(3) b(3) by (intro exI conjI)
  from a(1) b(1) c w i assms(4) show ?thesis
    by (simp add: on_click_vars)
qed

theorem predict_is_deterministic_witness:
  "deterministic (Some adder)
   \<and> world (on_click adder_models click_state) = 6
   \<and> fst (predict_rows adder_models click_state) =
       fst (predict_rows adder_models (click_state\<lparr>world := 7, screen := [PageConfig]\<rparr>))
   \<and> fst (predict_rows adder_models (on_click adder_models click_state)) =
       fst (predict_rows adder_models click_state)
   \<and> vars (on_click adder_models click_state) = spec_mix"
proof -
  have d: "deterministic (Some adder)"
    by (simp add: deterministic_def adder_def)
  then have d3: "deterministic (model_SYS adder_models)" "deterministic (model_DYS adder_models)"
    "deterministic (model_PV adder_models)"
    by (simp_all add: adder_models_def)
  have v: "vars click_state = vars (click_state\<lparr>world := 7, screen := [PageConfig]\<rparr>)"
    by simp
  have w: "world (on_click adder_models click_state) = 6"
    by (simp add: on_click_def predict_rows_def try_predict_def adder_models_def adder_def
        click_state_def)
  note t = predict_is_deterministic [OF d3 v, of 0]
  from t have "fst (predict_rows adder_models click_state) =
       fst (predict_rows adder_models (click_state\<lparr>world := 7, screen := [PageConfig]\<rparr>))
     \<and> fst (predict_rows adder_models (on_click adder_models click_state)) =
       fst (predict_rows adder_models click_state)
     \<and> vars (on_click adder_models click_state) = vars click_state"
    by simp
  with d w show ?thesis
    by (simp add: click_state_def)
qed

end
